theory Spec2Isabelle
  imports Complex_Main "HOL-Library.Multiset"
begin

section \<open>Keno time-pattern analyzer V5: model of keno\_analyzer\_v5.py\<close>

text \<open>
  The model follows \<^verbatim>\<open>src/live_demos/keno_demo/keno_analyzer_v5.py\<close>.
  Python integers are \<^typ>\<open>int\<close>, occurrence counts (values of a
  \<^verbatim>\<open>Counter\<close> that is only ever incremented) are \<^typ>\<open>nat\<close>, and Python
  floats are idealised as \<^typ>\<open>real\<close>: rounding is not modelled.  Dictionaries are
  association lists in insertion order, because the order in which Python iterates over a
  dictionary decides how ties are broken by its stable sorts.
\<close>

subsection \<open>Formatting of clock components\<close>

definition digit_char :: "nat \<Rightarrow> char" where
  "digit_char d = ''0123456789'' ! d"

text \<open>Decimal digits of a natural number, as \<^verbatim>\<open>str\<close> prints them.\<close>

function dec_str :: "nat \<Rightarrow> string" where
  "dec_str n =
     (if n < 10 then [digit_char n] else dec_str (n div 10) @ [digit_char (n mod 10)])"
  by pat_completeness auto
termination
  by (relation "measure (\<lambda>n. n)") auto

declare dec_str.simps [simp del]

text \<open>
  The format specification \<^verbatim>\<open>:02d\<close>: sign-aware zero padding to a total width of
  two characters.  A negative number keeps its sign, a number of three or more digits is
  printed in full.
\<close>

definition fmt_02d :: "int \<Rightarrow> string" where
  "fmt_02d n =
     (if n < 0
      then (let s = dec_str (nat (- n)) in CHR ''-'' # replicate (1 - length s) CHR ''0'' @ s)
      else (let s = dec_str (nat n) in replicate (2 - length s) CHR ''0'' @ s))"

text \<open>\<^verbatim>\<open>f"{hour:02d}:{minute:02d}"\<close>\<close>

definition fmt_time :: "int \<times> int \<Rightarrow> string" where
  "fmt_time hm = fmt_02d (fst hm) @ '':'' @ fmt_02d (snd hm)"

text \<open>
  What it means for a string to be a zero-padded 24-hour \<^verbatim>\<open>HH:MM\<close> time: five
  characters, two digits, a colon, two digits, the hour at most 23 and the minute at
  most 59.
\<close>

definition is_digit :: "char \<Rightarrow> bool" where
  "is_digit c = (c \<in> set ''0123456789'')"

definition digit_val :: "char \<Rightarrow> nat" where
  "digit_val c = of_char c - 48"

definition valid_hhmm :: "string \<Rightarrow> bool" where
  "valid_hhmm s =
     (case s of
        [a, b, c, d, e] \<Rightarrow>
          is_digit a \<and> is_digit b \<and> c = CHR '':'' \<and> is_digit d \<and> is_digit e \<and>
          digit_val a * 10 + digit_val b \<le> 23 \<and> digit_val d * 10 + digit_val e \<le> 59
      | _ \<Rightarrow> False)"

subsection \<open>Timing correction (\_apply\_timing\_correction)\<close>

text \<open>
  The offset is \<^verbatim>\<open>V5_CONFIG['TIMING_OFFSET_MINUTES']\<close>, read from the
  configuration at each call; the shipped configuration sets it to \<open>-5\<close>.  The function
  borrows or carries at most one hour.
\<close>

definition TIMING_OFFSET_MINUTES :: int where
  "TIMING_OFFSET_MINUTES = - 5"

definition timing_correction_hm :: "int \<Rightarrow> int \<Rightarrow> int \<Rightarrow> int \<times> int" where
  "timing_correction_hm offset hour minute =
     (let corrected_minute = minute + offset in
      if corrected_minute < 0 then
        (let corrected_hour = hour - 1;
             corrected_minute = 60 + corrected_minute
         in (if corrected_hour < 0 then 23 else corrected_hour, corrected_minute))
      else if corrected_minute \<ge> 60 then
        (let corrected_hour = hour + 1;
             corrected_minute = corrected_minute - 60
         in (if corrected_hour \<ge> 24 then 0 else corrected_hour, corrected_minute))
      else (hour, corrected_minute))"

definition apply_timing_correction :: "int \<Rightarrow> int \<Rightarrow> int \<Rightarrow> string" where
  "apply_timing_correction offset hour minute =
     fmt_time (timing_correction_hm offset hour minute)"

subsection \<open>Five-minute windows (\_create\_v5\_time\_window)\<close>

text \<open>
  The numeric part of the function: start hour and minute, end hour and minute of the
  window.  Python's \<^verbatim>\<open>//\<close> is floor division, as \<^term>\<open>(div)\<close> on \<^typ>\<open>int\<close>.
\<close>

definition time_window_bounds :: "int \<Rightarrow> int \<Rightarrow> (int \<times> int) \<times> (int \<times> int)" where
  "time_window_bounds hour minute =
     (let window_start_minute = (minute div 5) * 5;
          window_end_minute = window_start_minute + 4
      in if window_end_minute \<ge> 60
         then ((hour, window_start_minute),
               (if hour < 23 then hour + 1 else 0, window_end_minute - 60))
         else ((hour, window_start_minute), (hour, window_end_minute)))"

definition create_v5_time_window :: "int \<Rightarrow> int \<Rightarrow> string" where
  "create_v5_time_window hour minute =
     (let b = time_window_bounds hour minute
      in fmt_time (fst b) @ ''-'' @ fmt_time (snd b))"

text \<open>Minute of the day of a clock time.\<close>

definition minute_of_day :: "int \<times> int \<Rightarrow> int" where
  "minute_of_day hm = 60 * fst hm + snd hm"

subsection \<open>Python library functions used by the analyzer\<close>

text \<open>
  A \<^verbatim>\<open>collections.Counter\<close> is a dictionary from keys to counts.  Python dictionaries
  keep their keys in insertion order, so a counter is an association list: incrementing
  a key that is present changes its count in place, incrementing a new key appends it.
\<close>

type_synonym 'a counter = "('a \<times> nat) list"

fun counter_incr :: "'a \<Rightarrow> 'a counter \<Rightarrow> 'a counter" where
  "counter_incr x [] = [(x, 1)]"
| "counter_incr x ((k, c) # kcs) =
     (if k = x then (k, c + 1) # kcs else (k, c) # counter_incr x kcs)"

text \<open>\<^verbatim>\<open>Counter(iterable)\<close> counts the elements from left to right.\<close>

definition Counter :: "'a list \<Rightarrow> 'a counter" where
  "Counter xs = foldl (\<lambda>acc x. counter_incr x acc) [] xs"

text \<open>
  \<^verbatim>\<open>sorted(xs, key=key, reverse=True)\<close>: descending by key, and stable, that is,
  elements with equal keys keep the order they have in \<open>xs\<close>.
\<close>

definition sorted_reverse :: "('a \<Rightarrow> nat) \<Rightarrow> 'a list \<Rightarrow> 'a list" where
  "sorted_reverse key xs = sort_key (\<lambda>x. - int (key x)) xs"

text \<open>
  \<^verbatim>\<open>Counter.most_common(n)\<close> is \<^verbatim>\<open>heapq.nlargest(n, items, key=count)\<close>, documented
  to equal \<^verbatim>\<open>sorted(items, key=count, reverse=True)[:n]\<close>: elements with equal counts
  come in the order first encountered.
\<close>

definition most_common :: "nat \<Rightarrow> 'a counter \<Rightarrow> 'a counter" where
  "most_common n fc = take n (sorted_reverse snd fc)"

text \<open>\<^verbatim>\<open>itertools.combinations(xs, r)\<close>, in the order Python yields them.\<close>

fun combinations :: "'a list \<Rightarrow> nat \<Rightarrow> 'a list list" where
  "combinations xs 0 = [[]]"
| "combinations [] (Suc r) = []"
| "combinations (x # xs) (Suc r) =
     map ((#) x) (combinations xs r) @ combinations xs (Suc r)"

text \<open>
  A slice \<^verbatim>\<open>xs[lo:hi]\<close> with integer bounds: a negative bound counts from the end,
  and bounds are clipped to the list.
\<close>

definition py_index :: "int \<Rightarrow> nat \<Rightarrow> nat" where
  "py_index i n = (if i < 0 then nat (max 0 (int n + i)) else min (nat i) n)"

definition py_slice :: "'a list \<Rightarrow> int \<Rightarrow> int \<Rightarrow> 'a list" where
  "py_slice xs lo hi =
     (let l = py_index lo (length xs); h = py_index hi (length xs)
      in take (h - l) (drop l xs))"

text \<open>
  Assignment \<^verbatim>\<open>d[k] = v\<close> to a dictionary: an existing key keeps its place, a new key
  goes to the end.
\<close>

fun dict_set :: "('k \<times> 'v) list \<Rightarrow> 'k \<Rightarrow> 'v \<Rightarrow> ('k \<times> 'v) list" where
  "dict_set [] k v = [(k, v)]"
| "dict_set ((k', v') # kvs) k v =
     (if k' = k then (k, v) # kvs else (k', v') # dict_set kvs k v)"

subsection \<open>Configuration constants (V5\_CONFIG)\<close>

definition MIN_DRAWS_FOR_ANALYSIS :: nat where
  "MIN_DRAWS_FOR_ANALYSIS = 5"

definition MAX_RECOMMENDATIONS :: nat where
  "MAX_RECOMMENDATIONS = 15"

definition BASE_CONFIDENCE :: real where
  "BASE_CONFIDENCE = 50"

definition DRAW_MULTIPLIER :: real where
  "DRAW_MULTIPLIER = 1.5"

definition CONSISTENCY_MULTIPLIER :: real where
  "CONSISTENCY_MULTIPLIER = 0.4"

definition COMBINATION_MULTIPLIER :: real where
  "COMBINATION_MULTIPLIER = 2.0"

definition MAX_CONFIDENCE :: real where
  "MAX_CONFIDENCE = 95"

subsection \<open>Exact-time consistency (\_calculate\_v5\_consistency)\<close>

definition calculate_v5_consistency :: "int list list \<Rightarrow> int counter \<Rightarrow> real" where
  "calculate_v5_consistency draws_list number_frequency =
     (if draws_list = [] then 0
      else
        let total_draws = length draws_list;
            total_numbers = sum_list (map length draws_list);
            top_appearances = sum_list (map snd (most_common 10 number_frequency));
            consistency =
              (if total_numbers > 0
               then (real top_appearances / real total_numbers) * 100 else 0);
            frequency_bonus = min (real total_draws / 20) 5
        in min (consistency + frequency_bonus) 100)"

subsection \<open>Combination analysis (\_analyze\_v5\_combinations)\<close>

record combo =
  numbers :: "int list"
  frequency :: nat
  percentage :: real

text \<open>
  The body of the loop over the draws: every pair of the draw, then every triple if the
  draw has at least three numbers, each normalised by \<^verbatim>\<open>tuple(sorted(...))\<close>.
\<close>

definition count_draw_combinations :: "int list counter \<Rightarrow> int list \<Rightarrow> int list counter" where
  "count_draw_combinations combination_counter draw =
     (let with_pairs =
            foldl (\<lambda>acc pair. counter_incr (sort pair) acc) combination_counter
              (combinations draw 2)
      in if length draw \<ge> 3
         then foldl (\<lambda>acc triple. counter_incr (sort triple) acc) with_pairs
                (combinations draw 3)
         else with_pairs)"

definition analyze_v5_combinations :: "int list list \<Rightarrow> combo list" where
  "analyze_v5_combinations draws_list =
     (if length draws_list < 3 then []
      else
        let combination_counter = foldl count_draw_combinations [] draws_list;
            frequent_combos =
              map (\<lambda>(c, n). \<lparr>numbers = c, frequency = n,
                     percentage = (real n / real (length draws_list)) * 100\<rparr>)
                (filter (\<lambda>(c, n). n \<ge> 2) combination_counter)
        in take 10 (sorted_reverse frequency frequent_combos))"

subsection \<open>Window consistency (\_calculate\_window\_consistency\_v5)\<close>

definition calculate_window_consistency_v5 :: "int list list \<Rightarrow> real" where
  "calculate_window_consistency_v5 draws_list =
     (if draws_list = [] then 0
      else
        let number_counts =
              foldl (\<lambda>acc draw. foldl (\<lambda>acc num. counter_incr num acc) acc draw) []
                draws_list;
            total_draws = length draws_list;
            very_consistent =
              length (filter (\<lambda>c. real c \<ge> real total_draws * 0.4) (map snd number_counts));
            somewhat_consistent =
              length (filter (\<lambda>c. real c \<ge> real total_draws * 0.25) (map snd number_counts));
            consistency_score =
              (if number_counts \<noteq> []
               then real (very_consistent * 2 + somewhat_consistent)
                      / real (length number_counts) * 100
               else 0)
        in min consistency_score 100)"

subsection \<open>Persistent numbers (\_find\_v5\_persistent\_numbers)\<close>

record persistent_tiers =
  very_high :: "(int \<times> nat) list"
  high :: "(int \<times> nat) list"
  moderate :: "(int \<times> nat) list"

text \<open>The body of the loop over the items of the frequency counter.\<close>

definition classify_persistent ::
  "nat \<Rightarrow> persistent_tiers \<Rightarrow> int \<times> nat \<Rightarrow> persistent_tiers" where
  "classify_persistent total_draws tiers item =
     (let appearance_rate = real (snd item) / real total_draws
      in if appearance_rate \<ge> 0.4 then tiers\<lparr>very_high := very_high tiers @ [item]\<rparr>
         else if appearance_rate \<ge> 0.25 then tiers\<lparr>high := high tiers @ [item]\<rparr>
         else if appearance_rate \<ge> 0.15 then tiers\<lparr>moderate := moderate tiers @ [item]\<rparr>
         else tiers)"

definition persistent_tiers_of :: "int list list \<Rightarrow> int counter \<Rightarrow> persistent_tiers" where
  "persistent_tiers_of draws_list frequency_counter =
     foldl (classify_persistent (length draws_list))
       \<lparr>very_high = [], high = [], moderate = []\<rparr> frequency_counter"

definition find_v5_persistent_numbers :: "int list list \<Rightarrow> int counter \<Rightarrow> int list" where
  "find_v5_persistent_numbers draws_list frequency_counter =
     (if draws_list = [] then []
      else
        let tiers = persistent_tiers_of draws_list frequency_counter;
            all_persistent = very_high tiers @ high tiers @ moderate tiers
        in map fst (sorted_reverse snd all_persistent))"

subsection \<open>Exact-time patterns (analyze\_exact\_time\_patterns\_v5)\<close>

text \<open>
  A row of the data frame is modelled by its \<^verbatim>\<open>Ball\<close> columns, \<open>None\<close> standing for
  a missing value (\<^verbatim>\<open>pd.notna\<close> fails).  The numbers of a draw are the present
  values, sorted.
\<close>

type_synonym row = "int option list"

definition draw_numbers_of_row :: "row \<Rightarrow> int list" where
  "draw_numbers_of_row r = sort (List.map_filter (\<lambda>v. v) r)"

record ball_recommendation =
  primary :: "int list"
  backup :: "int list"
  extended :: "int list"

text \<open>
  The entry \<^verbatim>\<open>time_patterns[time_key]\<close>.  Of the dictionary in the source the fields
  \<^verbatim>\<open>average_per_draw\<close> and \<^verbatim>\<open>multiplier_potential\<close> are left out: no function
  modelled here reads them.
\<close>

record time_pattern =
  total_draws :: nat
  corrected_time :: string
  numbers_frequency :: "int counter"
  hot_numbers :: "int list"
  ball_recommendations :: "(int \<times> ball_recommendation) list"
  consistency_score :: real
  frequent_combinations :: "combo list"
  all_draws :: "int list list"

text \<open>The body of the loop over the groups, for one group of rows.\<close>

definition exact_time_pattern :: "string \<Rightarrow> row list \<Rightarrow> time_pattern" where
  "exact_time_pattern corrected rows =
     (let numbers_at_time = map draw_numbers_of_row rows;
          all_numbers = concat numbers_at_time;
          number_frequency = Counter all_numbers;
          recommendations =
            map (\<lambda>ball_count.
                   let top_for_count =
                         map fst (most_common (nat (ball_count * 3)) number_frequency)
                   in (ball_count,
                       \<lparr>primary = py_slice top_for_count 0 ball_count,
                        backup = py_slice top_for_count ball_count (ball_count * 2),
                        extended = py_slice top_for_count 0 (ball_count * 3)\<rparr>))
              [1..8]
      in \<lparr>total_draws = length rows,
          corrected_time = corrected,
          numbers_frequency = number_frequency,
          hot_numbers = map fst (most_common MAX_RECOMMENDATIONS number_frequency),
          ball_recommendations = recommendations,
          consistency_score = calculate_v5_consistency numbers_at_time number_frequency,
          frequent_combinations = analyze_v5_combinations numbers_at_time,
          all_draws = numbers_at_time\<rparr>)"

text \<open>
  The groups are those of \<^verbatim>\<open>df.groupby(['TimeKey', 'CorrectedTimeKey'])\<close>, each with
  its two keys and its rows; a group with fewer than \<open>MIN_DRAWS_FOR_ANALYSIS\<close> rows is
  skipped.
\<close>

definition analyze_exact_time_patterns_v5 ::
  "((string \<times> string) \<times> row list) list \<Rightarrow> (string \<times> time_pattern) list
     \<Rightarrow> (string \<times> time_pattern) list" where
  "analyze_exact_time_patterns_v5 time_groups time_patterns0 =
     foldl (\<lambda>patterns ((time_key, corrected), rows).
              if length rows \<ge> MIN_DRAWS_FOR_ANALYSIS
              then dict_set patterns time_key (exact_time_pattern corrected rows)
              else patterns)
       time_patterns0 time_groups"

subsection \<open>Recommendations (generate\_v5\_recommendations)\<close>

text \<open>
  The part of the analyzer object that the recommendation functions read.  The values of
  \<^verbatim>\<open>optimal_times\<close> are score dictionaries; only its keys, in ranking order, are read
  here.
\<close>

record 's analyzer =
  time_patterns :: "(string \<times> time_pattern) list"
  optimal_times :: "(string \<times> 's) list"

definition get_v5_ball_recommendations ::
  "time_pattern \<Rightarrow> int \<Rightarrow> (int \<times> ball_recommendation) list" where
  "get_v5_ball_recommendations pattern_data ball_count =
     (case map_of (ball_recommendations pattern_data) ball_count of
        Some r \<Rightarrow> [(ball_count, r)]
      | None \<Rightarrow>
          (let hot = hot_numbers pattern_data
           in [(ball_count,
                \<lparr>primary = py_slice hot 0 ball_count,
                 backup = py_slice hot ball_count (ball_count * 2),
                 extended = py_slice hot 0 (ball_count * 3)\<rparr>)]))"

definition calculate_v5_confidence :: "'s analyzer \<Rightarrow> time_pattern \<Rightarrow> string \<Rightarrow> real" where
  "calculate_v5_confidence self pattern_data time_key =
     (let base = BASE_CONFIDENCE;
          draw_boost = min (real (total_draws pattern_data) * DRAW_MULTIPLIER) 25;
          consistency_boost = consistency_score pattern_data * CONSISTENCY_MULTIPLIER;
          combo_boost =
            real (length (frequent_combinations pattern_data)) * COMBINATION_MULTIPLIER;
          timing_boost = (if corrected_time pattern_data \<noteq> time_key then 5 else 0);
          optimal_boost =
            (if time_key \<in> set (take 5 (map fst (optimal_times self))) then 10 else 0);
          total_confidence =
            base + draw_boost + consistency_boost + combo_boost + timing_boost + optimal_boost
      in min total_confidence MAX_CONFIDENCE)"

text \<open>
  The strategies are four lines of guidance text chosen by the confidence; the model
  keeps the choice and not the text.
\<close>

datatype strategy_tier = HIGH_CONFIDENCE | GOOD_PATTERNS | MODERATE_CONFIDENCE | LOW_CONFIDENCE

definition generate_v5_strategies :: "real \<Rightarrow> strategy_tier" where
  "generate_v5_strategies confidence =
     (if confidence \<ge> 85 then HIGH_CONFIDENCE
      else if confidence \<ge> 75 then GOOD_PATTERNS
      else if confidence \<ge> 65 then MODERATE_CONFIDENCE
      else LOW_CONFIDENCE)"

text \<open>
  An entry of the returned dictionary; \<^verbatim>\<open>multiplier_analysis\<close> is left out with the
  field it copies.  Field names carry the prefix \<open>rec\<close> where the pattern record has a
  field of the same name.
\<close>

record recommendation =
  confidence_level :: real
  rec_corrected_time :: string
  timing_offset :: int
  rec_ball_recommendations :: "(int \<times> ball_recommendation) list"
  rec_hot_numbers :: "int list"
  combination_plays :: "combo list"
  historical_draws :: nat
  rec_consistency_score :: real
  strategies :: strategy_tier

text \<open>
  \<^verbatim>\<open>target_time\<close> and \<^verbatim>\<open>ball_count\<close> default to \<^verbatim>\<open>None\<close>.  Python's
  \<^verbatim>\<open>if target_time:\<close> is false for \<^verbatim>\<open>None\<close> and for the empty string,
  \<^verbatim>\<open>if ball_count:\<close> is false for \<^verbatim>\<open>None\<close> and for \<open>0\<close>.
\<close>

definition times_to_analyze :: "'s analyzer \<Rightarrow> string option \<Rightarrow> string list" where
  "times_to_analyze self target_time =
     (case target_time of
        None \<Rightarrow> take 5 (map fst (optimal_times self))
      | Some t \<Rightarrow>
          if t \<noteq> []
          then (if t \<in> set (map fst (time_patterns self)) then [t] else [])
          else take 5 (map fst (optimal_times self)))"

definition recommendation_for ::
  "'s analyzer \<Rightarrow> int option \<Rightarrow> string \<Rightarrow> time_pattern \<Rightarrow> recommendation" where
  "recommendation_for self ball_count time_key pattern_data =
     (let recs =
            (case ball_count of
               None \<Rightarrow> ball_recommendations pattern_data
             | Some b \<Rightarrow>
                 if b \<noteq> 0 then get_v5_ball_recommendations pattern_data b
                 else ball_recommendations pattern_data);
          confidence = calculate_v5_confidence self pattern_data time_key
      in \<lparr>confidence_level = confidence,
          rec_corrected_time = corrected_time pattern_data,
          timing_offset = TIMING_OFFSET_MINUTES,
          rec_ball_recommendations = recs,
          rec_hot_numbers = py_slice (hot_numbers pattern_data) 0 15,
          combination_plays = py_slice (frequent_combinations pattern_data) 0 5,
          historical_draws = total_draws pattern_data,
          rec_consistency_score = consistency_score pattern_data,
          strategies = generate_v5_strategies confidence\<rparr>)"

definition generate_v5_recommendations ::
  "'s analyzer \<Rightarrow> string option \<Rightarrow> int option \<Rightarrow> (string \<times> recommendation) list" where
  "generate_v5_recommendations self target_time ball_count =
     foldl (\<lambda>recommendations time_key.
              case map_of (time_patterns self) time_key of
                None \<Rightarrow> recommendations
              | Some pattern_data \<Rightarrow>
                  dict_set recommendations time_key
                    (recommendation_for self ball_count time_key pattern_data))
       [] (times_to_analyze self target_time)"

subsection \<open>Notions used to state the properties\<close>

text \<open>Position of the first occurrence of an element.\<close>

definition first_index :: "'a list \<Rightarrow> 'a \<Rightarrow> nat" where
  "first_index xs x = length (takeWhile (\<lambda>y. y \<noteq> x) xs)"

text \<open>
  The ranking that a stable descending sort of a counter produces: more occurrences
  first, and among equal counts the element first encountered.
\<close>

definition ranks_before :: "'a list \<Rightarrow> 'a \<Rightarrow> 'a \<Rightarrow> bool" where
  "ranks_before xs a b =
     (count_list xs a > count_list xs b \<or>
      (count_list xs a = count_list xs b \<and> first_index xs a < first_index xs b))"

text \<open>
  The normalised pairs and triples of the draws of a group, in the order in which the
  combination analysis counts them.
\<close>

definition draw_combinations :: "int list \<Rightarrow> int list list" where
  "draw_combinations draw =
     map sort (combinations draw 2) @
     (if length draw \<ge> 3 then map sort (combinations draw 3) else [])"

definition group_combinations :: "int list list \<Rightarrow> int list list" where
  "group_combinations draws_list = concat (map draw_combinations draws_list)"

text \<open>
  The persistence tiers as the specification words them, by appearance rate
  \<open>count / totalDraws\<close>: very high from 0.40, high from 0.25 and below 0.40, moderate
  from 0.15 and below 0.25.
\<close>

definition appearance_rate :: "nat \<Rightarrow> int \<times> nat \<Rightarrow> real" where
  "appearance_rate n item = real (snd item) / real n"

definition tier_very_high :: "nat \<Rightarrow> int \<times> nat \<Rightarrow> bool" where
  "tier_very_high n item = (appearance_rate n item \<ge> 0.40)"

definition tier_high :: "nat \<Rightarrow> int \<times> nat \<Rightarrow> bool" where
  "tier_high n item =
     (0.25 \<le> appearance_rate n item \<and> appearance_rate n item < 0.40)"

definition tier_moderate :: "nat \<Rightarrow> int \<times> nat \<Rightarrow> bool" where
  "tier_moderate n item =
     (0.15 \<le> appearance_rate n item \<and> appearance_rate n item < 0.25)"

text \<open>Eight draws of one window; the number 2 is seen in one of them.\<close>

definition sample_window_draws :: "int list list" where
  "sample_window_draws = [[1, 2], [1], [1], [1], [1], [1], [1], [1]]"

text \<open>All numbers of a group of rows, draw after draw, as the analysis flattens them.\<close>

definition all_numbers_of :: "row list \<Rightarrow> int list" where
  "all_numbers_of rows = concat (map draw_numbers_of_row rows)"

text \<open>
  What the exact-time consistency score is computed from: the ten most frequent numbers
  of a group (\<^verbatim>\<open>top_numbers\<close> in the source) and the sum of their counts
  (\<^verbatim>\<open>top_appearances\<close>); and how many numbers of a further draw are among these ten.
\<close>

definition top_numbers :: "row list \<Rightarrow> int list" where
  "top_numbers rows = map fst (most_common 10 (Counter (all_numbers_of rows)))"

definition top_appearances :: "row list \<Rightarrow> nat" where
  "top_appearances rows = sum_list (map snd (most_common 10 (Counter (all_numbers_of rows))))"

definition top_hits :: "row list \<Rightarrow> row \<Rightarrow> nat" where
  "top_hits rows r =
     length (filter (\<lambda>x. x \<in> set (top_numbers rows)) (draw_numbers_of_row r))"

subsection \<open>Sample data\<close>

text \<open>Five draws at 08:03, enough for the exact-time analysis to keep the slot.\<close>

definition sample_rows :: "row list" where
  "sample_rows = [[Some 5], [Some 3], [Some 5], [Some 3], [Some 7]]"

definition sample_groups :: "((string \<times> string) \<times> row list) list" where
  "sample_groups = [((''08:03'', ''07:58''), sample_rows)]"

definition sample_analyzer :: "unit analyzer" where
  "sample_analyzer =
     \<lparr>time_patterns = analyze_exact_time_patterns_v5 sample_groups [],
      optimal_times = [(''08:03'', ())]\<rparr>"

text \<open>The specification's example group, and a group with two tied pairs.\<close>

definition example_draws :: "int list list" where
  "example_draws = [[1, 2, 3], [1, 2, 4], [1, 5, 6]]"

definition tied_draws :: "int list list" where
  "tied_draws = [[3, 4], [1, 2], [3, 4], [1, 2]]"

text \<open>
  Five draws of the twenty numbers 1 to 20; a further draw that repeats the number 1
  among nineteen numbers not seen before; and a further draw that repeats the numbers 1
  to 10 among ten numbers not seen before.
\<close>

definition full_rows :: "row list" where
  "full_rows = replicate 5 (map Some [1..20])"

definition diluting_row :: row where
  "diluting_row = map Some (1 # [21..39])"

definition balanced_row :: row where
  "balanced_row = map Some ([1..10] @ [21..30])"

section \<open>Properties of formatting\<close>

lemma digit_cases: "d < 10 \<Longrightarrow> d \<in> {0, 1, 2, 3, 4, 5, 6, 7, 8, 9 :: nat}"
  by auto

lemma is_digit_digit_char: "d < 10 \<Longrightarrow> is_digit (digit_char d)"
  using digit_cases [of d] by (auto simp: is_digit_def digit_char_def)

lemma digit_val_digit_char: "d < 10 \<Longrightarrow> digit_val (digit_char d) = d"
  using digit_cases [of d] by (auto simp: digit_val_def digit_char_def)

lemma fmt_02d_two_digits:
  assumes "0 \<le> n" and "n < 100"
  shows "fmt_02d n = [digit_char (nat n div 10), digit_char (nat n mod 10)]"
proof (cases "nat n < 10")
  have nn: "\<not> n < 0" using assms by simp
  case True
  then have "dec_str (nat n) = [digit_char (nat n)]"
    by (simp add: dec_str.simps)
  moreover have "digit_char 0 = CHR ''0''"
    by (simp add: digit_char_def)
  ultimately show ?thesis
    using True nn by (simp add: fmt_02d_def)
next
  case False
  have nn: "\<not> n < 0" using assms by simp
  from False assms have small: "nat n div 10 < 10" by linarith
  have "dec_str (nat n) = dec_str (nat n div 10) @ [digit_char (nat n mod 10)]"
    using False by (subst dec_str.simps) simp
  also have "dec_str (nat n div 10) = [digit_char (nat n div 10)]"
    using small by (subst dec_str.simps) simp
  finally show ?thesis
    using nn by (simp add: fmt_02d_def)
qed

lemma fmt_time_two_digits:
  assumes "0 \<le> h" "h < 100" "0 \<le> m" "m < 100"
  shows "fmt_time (h, m) =
    [digit_char (nat h div 10), digit_char (nat h mod 10), CHR '':'',
     digit_char (nat m div 10), digit_char (nat m mod 10)]"
  using assms by (simp add: fmt_time_def fmt_02d_two_digits)

lemma valid_hhmm_fmt_time:
  assumes "0 \<le> h" "h \<le> 23" "0 \<le> m" "m \<le> 59"
  shows "valid_hhmm (fmt_time (h, m))"
proof -
  have dh: "nat h div 10 < 10" "nat h mod 10 < 10" and dm: "nat m div 10 < 10" "nat m mod 10 < 10"
    using assms by auto
  have vh: "nat h div 10 * 10 + nat h mod 10 \<le> 23" and vm: "nat m div 10 * 10 + nat m mod 10 \<le> 59"
    using assms by auto
  have "fmt_time (h, m) =
    [digit_char (nat h div 10), digit_char (nat h mod 10), CHR '':'',
     digit_char (nat m div 10), digit_char (nat m mod 10)]"
    using assms by (intro fmt_time_two_digits) auto
  then show ?thesis
    using dh dm vh vm
    by (simp add: valid_hhmm_def is_digit_digit_char digit_val_digit_char)
qed

lemma fmt_02d_inj:
  assumes "0 \<le> a" "a < 100" "0 \<le> b" "b < 100" "fmt_02d a = fmt_02d b"
  shows "a = b"
proof -
  have da: "nat a div 10 < 10" "nat a mod 10 < 10" and db: "nat b div 10 < 10" "nat b mod 10 < 10"
    using assms by auto
  from assms have "digit_char (nat a div 10) = digit_char (nat b div 10)"
    and "digit_char (nat a mod 10) = digit_char (nat b mod 10)"
    by (simp_all add: fmt_02d_two_digits)
  then have "digit_val (digit_char (nat a div 10)) = digit_val (digit_char (nat b div 10))"
    and "digit_val (digit_char (nat a mod 10)) = digit_val (digit_char (nat b mod 10))"
    by simp_all
  then have "nat a div 10 = nat b div 10" and "nat a mod 10 = nat b mod 10"
    using da db by (simp_all add: digit_val_digit_char)
  then have "nat a = nat b"
    by (metis div_mult_mod_eq)
  with assms show ?thesis by simp
qed

lemma fmt_time_inj:
  assumes "0 \<le> h" "h < 100" "0 \<le> m" "m < 100" "0 \<le> h'" "h' < 100" "0 \<le> m'" "m' < 100"
    and "fmt_time (h, m) = fmt_time (h', m')"
  shows "h = h' \<and> m = m'"
proof -
  have l: "length (fmt_02d h) = 2" "length (fmt_02d h') = 2"
    using assms by (simp_all add: fmt_02d_two_digits)
  from assms(9) have "fmt_02d h @ ('':'' @ fmt_02d m) = fmt_02d h' @ ('':'' @ fmt_02d m')"
    by (simp add: fmt_time_def)
  with l have "fmt_02d h = fmt_02d h'" and "fmt_02d m = fmt_02d m'"
    by simp_all
  with assms show ?thesis
    by (auto dest: fmt_02d_inj)
qed

section \<open>Timing correction\<close>

lemma timing_correction_hm_range:
  assumes "0 \<le> hour" "hour \<le> 23" "0 \<le> minute" "minute \<le> 59"
    and "- 60 \<le> offset" "offset \<le> 60"
  shows "0 \<le> fst (timing_correction_hm offset hour minute)"
    and "fst (timing_correction_hm offset hour minute) \<le> 23"
    and "0 \<le> snd (timing_correction_hm offset hour minute)"
    and "snd (timing_correction_hm offset hour minute) \<le> 59"
  using assms by (auto simp: timing_correction_hm_def Let_def)

text \<open>
  Claim C1, as amended.  For every hour in \<open>[0,23]\<close>, every minute in \<open>[0,59]\<close> and
  every offset between \<open>-60\<close> and \<open>60\<close> minutes, the corrected time key is a valid
  zero-padded 24-hour \<open>HH:MM\<close> string, printed from an hour in \<open>[0,23]\<close> and a minute
  in \<open>[0,59]\<close>.  This covers the configured offset of \<open>-5\<close>.
\<close>

theorem apply_timing_correction_valid:
  assumes "0 \<le> hour" "hour \<le> 23" "0 \<le> minute" "minute \<le> 59"
    and "- 60 \<le> offset" "offset \<le> 60"
  shows "valid_hhmm (apply_timing_correction offset hour minute)
    \<and> 0 \<le> fst (timing_correction_hm offset hour minute)
    \<and> fst (timing_correction_hm offset hour minute) \<le> 23
    \<and> 0 \<le> snd (timing_correction_hm offset hour minute)
    \<and> snd (timing_correction_hm offset hour minute) \<le> 59"
proof -
  note r = timing_correction_hm_range [OF assms]
  have "valid_hhmm (fmt_time (fst (timing_correction_hm offset hour minute),
      snd (timing_correction_hm offset hour minute)))"
    using r by (rule valid_hhmm_fmt_time)
  then show ?thesis
    using r by (simp add: apply_timing_correction_def)
qed

text \<open>The spec's example: offset \<open>-5\<close> turns 08:03 into 07:58.\<close>

theorem apply_timing_correction_valid_witness:
  "valid_hhmm (apply_timing_correction TIMING_OFFSET_MINUTES 8 3)
    \<and> apply_timing_correction TIMING_OFFSET_MINUTES 8 3 = ''07:58''
    \<and> timing_correction_hm TIMING_OFFSET_MINUTES 8 3 = (7, 58)"
proof -
  have hm: "timing_correction_hm TIMING_OFFSET_MINUTES 8 3 = (7, 58)"
    by (simp add: timing_correction_hm_def TIMING_OFFSET_MINUTES_def)
  have "apply_timing_correction TIMING_OFFSET_MINUTES 8 3 = ''07:58''"
    by (simp add: apply_timing_correction_def hm fmt_time_def fmt_02d_two_digits digit_char_def)
  moreover have "valid_hhmm (apply_timing_correction TIMING_OFFSET_MINUTES 8 3)"
    using apply_timing_correction_valid [of 8 3 TIMING_OFFSET_MINUTES]
    by (simp add: TIMING_OFFSET_MINUTES_def)
  ultimately show ?thesis
    using hm by simp
qed

text \<open>
  Claim C1 as stated fails for an offset beyond one hour: with offset \<open>-61\<close> the time
  00:00 is printed with the minute \<open>-1\<close>, which is not a clock time.
\<close>

theorem apply_timing_correction_counterexample:
  "apply_timing_correction (- 61) 0 0 = ''23:-1''
    \<and> \<not> valid_hhmm (apply_timing_correction (- 61) 0 0)
    \<and> snd (timing_correction_hm (- 61) 0 0) < 0"
proof -
  have hm: "timing_correction_hm (- 61) 0 0 = (23, - 1)"
    by (simp add: timing_correction_hm_def)
  have d1: "dec_str (Suc 0) = ''1''"
    by (simp add: dec_str.simps digit_char_def)
  have f1: "fmt_02d (- 1) = ''-1''"
    by (simp add: fmt_02d_def d1)
  have f23: "fmt_02d 23 = ''23''"
    by (simp add: fmt_02d_two_digits digit_char_def)
  have s: "apply_timing_correction (- 61) 0 0 = ''23:-1''"
    by (simp add: apply_timing_correction_def hm fmt_time_def f1 f23)
  show ?thesis
    by (simp add: s hm valid_hhmm_def is_digit_def)
qed

section \<open>Five-minute windows\<close>

lemma time_window_bounds_valid:
  assumes "0 \<le> minute" "minute \<le> 59"
  shows "time_window_bounds hour minute =
    ((hour, minute div 5 * 5), (hour, minute div 5 * 5 + 4))"
proof -
  have "minute div 5 * 5 + 4 < 60"
    using assms by presburger
  then show ?thesis
    by (simp add: time_window_bounds_def Let_def)
qed

lemma create_v5_time_window_eq_iff:
  assumes "0 \<le> h" "h \<le> 23" "0 \<le> m" "m \<le> 59" "0 \<le> h'" "h' \<le> 23" "0 \<le> m'" "m' \<le> 59"
  shows "create_v5_time_window h' m' = create_v5_time_window h m \<longleftrightarrow>
    h' = h \<and> m' div 5 = m div 5"
proof
  assume eq: "create_v5_time_window h' m' = create_v5_time_window h m"
  have b: "0 \<le> m div 5 * 5" "m div 5 * 5 < 100" "0 \<le> m' div 5 * 5" "m' div 5 * 5 < 100"
    using assms by auto
  have hb: "0 \<le> h" "h < 100" "0 \<le> h'" "h' < 100"
    using assms by auto
  have l: "length (fmt_time (h, m div 5 * 5)) = 5" "length (fmt_time (h', m' div 5 * 5)) = 5"
    using b hb by (simp_all add: fmt_time_two_digits)
  from eq have "fmt_time (h', m' div 5 * 5) @ ''-'' @ fmt_time (h', m' div 5 * 5 + 4)
     = fmt_time (h, m div 5 * 5) @ ''-'' @ fmt_time (h, m div 5 * 5 + 4)"
    using assms by (simp add: create_v5_time_window_def time_window_bounds_valid)
  with l have "fmt_time (h', m' div 5 * 5) = fmt_time (h, m div 5 * 5)"
    by simp
  then have "h' = h \<and> m' div 5 * 5 = m div 5 * 5"
    using fmt_time_inj [OF hb(3,4) b(3,4) hb(1,2) b(1,2)] by simp
  then show "h' = h \<and> m' div 5 = m div 5"
    by simp
next
  assume "h' = h \<and> m' div 5 = m div 5"
  then show "create_v5_time_window h' m' = create_v5_time_window h m"
    using assms by (simp add: create_v5_time_window_def time_window_bounds_valid)
qed

lemma same_hour_arith:
  fixes h h' s m' :: int
  assumes "60 * h + s \<le> 60 * h' + m'" "60 * h' + m' \<le> 60 * h + (s + 4)"
    and "0 \<le> s" "s \<le> 55" "0 \<le> m'" "m' \<le> 59"
  shows "h' = h"
  using assms by linarith

lemma window_membership_arith:
  fixes h m h' m' :: int
  assumes "0 \<le> m" "m \<le> 59" "0 \<le> m'" "m' \<le> 59"
  shows "(h' = h \<and> m' div 5 = m div 5) \<longleftrightarrow>
    (60 * h + m div 5 * 5 \<le> 60 * h' + m' \<and> 60 * h' + m' \<le> 60 * h + (m div 5 * 5 + 4))"
proof
  assume "h' = h \<and> m' div 5 = m div 5"
  then show "60 * h + m div 5 * 5 \<le> 60 * h' + m' \<and> 60 * h' + m' \<le> 60 * h + (m div 5 * 5 + 4)"
    by presburger
next
  assume a: "60 * h + m div 5 * 5 \<le> 60 * h' + m' \<and> 60 * h' + m' \<le> 60 * h + (m div 5 * 5 + 4)"
  have s: "0 \<le> m div 5 * 5" "m div 5 * 5 \<le> 55"
    using assms by presburger+
  from a have a1: "60 * h + m div 5 * 5 \<le> 60 * h' + m'"
    and a2: "60 * h' + m' \<le> 60 * h + (m div 5 * 5 + 4)"
    by simp_all
  have hh: "h' = h"
    using a1 a2 s assms(3,4) by (rule same_hour_arith)
  with a have "m div 5 * 5 \<le> m'" "m' \<le> m div 5 * 5 + 4"
    by simp_all
  then have "m' div 5 = m div 5"
    by presburger
  with hh show "h' = h \<and> m' div 5 = m div 5" ..
qed

text \<open>
  Claim C9.  For every hour in \<open>[0,23]\<close> and minute in \<open>[0,59]\<close>, the window
  label is the start time \<open>hour:floor(minute/5)*5\<close>, a dash, and the end time four
  minutes later; both are valid clock times of the same hour (the rollover branch is
  never needed for a width of five minutes), and the input minute lies between them.
  The windows tile the day: another minute of the day gets the same label exactly when
  it lies between the start and the end of this window, so every minute is in its own
  window and in no other.
\<close>

theorem create_v5_time_window_tiles:
  assumes "0 \<le> hour" "hour \<le> 23" "0 \<le> minute" "minute \<le> 59"
  shows "time_window_bounds hour minute =
      ((hour, minute div 5 * 5), (hour, minute div 5 * 5 + 4))
    \<and> create_v5_time_window hour minute =
      fmt_time (hour, minute div 5 * 5) @ ''-'' @ fmt_time (hour, minute div 5 * 5 + 4)
    \<and> valid_hhmm (fmt_time (hour, minute div 5 * 5))
    \<and> valid_hhmm (fmt_time (hour, minute div 5 * 5 + 4))
    \<and> minute div 5 * 5 \<le> minute \<and> minute \<le> minute div 5 * 5 + 4
    \<and> (\<forall>h' m'. 0 \<le> h' \<and> h' \<le> 23 \<and> 0 \<le> m' \<and> m' \<le> 59 \<longrightarrow>
         (create_v5_time_window h' m' = create_v5_time_window hour minute \<longleftrightarrow>
          minute_of_day (fst (time_window_bounds hour minute)) \<le> minute_of_day (h', m') \<and>
          minute_of_day (h', m') \<le> minute_of_day (snd (time_window_bounds hour minute))))"
proof -
  have b: "time_window_bounds hour minute =
      ((hour, minute div 5 * 5), (hour, minute div 5 * 5 + 4))"
    using assms by (simp add: time_window_bounds_valid)
  have r: "0 \<le> minute div 5 * 5" "minute div 5 * 5 + 4 \<le> 59"
    "minute div 5 * 5 \<le> minute" "minute \<le> minute div 5 * 5 + 4"
    using assms by auto
  have v1: "valid_hhmm (fmt_time (hour, minute div 5 * 5))"
    using assms r by (intro valid_hhmm_fmt_time) auto
  have v2: "valid_hhmm (fmt_time (hour, minute div 5 * 5 + 4))"
    using assms r by (intro valid_hhmm_fmt_time) auto
  have t: "create_v5_time_window h' m' = create_v5_time_window hour minute \<longleftrightarrow>
          minute_of_day (fst (time_window_bounds hour minute)) \<le> minute_of_day (h', m') \<and>
          minute_of_day (h', m') \<le> minute_of_day (snd (time_window_bounds hour minute))"
    if "0 \<le> h' \<and> h' \<le> 23 \<and> 0 \<le> m' \<and> m' \<le> 59" for h' m'
  proof -
    have "create_v5_time_window h' m' = create_v5_time_window hour minute \<longleftrightarrow>
      h' = hour \<and> m' div 5 = minute div 5"
      using assms that by (intro create_v5_time_window_eq_iff) auto
    also have "\<dots> \<longleftrightarrow> (60 * hour + minute div 5 * 5 \<le> 60 * h' + m'
        \<and> 60 * h' + m' \<le> 60 * hour + (minute div 5 * 5 + 4))"
      using assms that by (intro window_membership_arith) auto
    finally show ?thesis
      by (simp add: b minute_of_day_def)
  qed
  show ?thesis
    using b r v1 v2 t by (simp add: create_v5_time_window_def)
qed

text \<open>The spec's example: input \<open>(9, 47)\<close> gives the label \<open>09:45-09:49\<close>.\<close>

theorem create_v5_time_window_tiles_witness:
  "create_v5_time_window 9 47 = ''09:45-09:49''
    \<and> time_window_bounds 9 47 = ((9, 45), (9, 49))
    \<and> create_v5_time_window 9 45 = create_v5_time_window 9 47
    \<and> create_v5_time_window 9 50 \<noteq> create_v5_time_window 9 47"
proof -
  have p: "(0::int) \<le> 9" "(9::int) \<le> 23" "(0::int) \<le> 47" "(47::int) \<le> 59"
    by simp_all
  note c = create_v5_time_window_tiles [OF p]
  from c have b: "time_window_bounds 9 47 = ((9, 45), (9, 49))"
    by simp
  from c have "create_v5_time_window 9 47 = fmt_time (9, 45) @ ''-'' @ fmt_time (9, 49)"
    by simp
  then have s: "create_v5_time_window 9 47 = ''09:45-09:49''"
    by (simp add: fmt_time_def fmt_02d_two_digits digit_char_def)
  from c have i: "(create_v5_time_window h' m' = create_v5_time_window 9 47) =
      (minute_of_day (fst (time_window_bounds 9 47)) \<le> minute_of_day (h', m') \<and>
       minute_of_day (h', m') \<le> minute_of_day (snd (time_window_bounds 9 47)))"
    if "0 \<le> h' \<and> h' \<le> 23 \<and> 0 \<le> m' \<and> m' \<le> 59" for h' m'
    using that by blast
  have "create_v5_time_window 9 45 = create_v5_time_window 9 47"
    using i [of 9 45] by (simp add: b minute_of_day_def)
  moreover have "create_v5_time_window 9 50 \<noteq> create_v5_time_window 9 47"
    using i [of 9 50] by (simp add: b minute_of_day_def)
  ultimately show ?thesis
    using s b by simp
qed

section \<open>Consistency scores\<close>

lemma calculate_v5_consistency_bounds:
  "0 \<le> calculate_v5_consistency draws_list number_frequency"
  "calculate_v5_consistency draws_list number_frequency \<le> 100"
  by (simp_all add: calculate_v5_consistency_def Let_def)

lemma calculate_window_consistency_v5_bounds:
  "0 \<le> calculate_window_consistency_v5 draws_list"
  "calculate_window_consistency_v5 draws_list \<le> 100"
  by (simp_all add: calculate_window_consistency_v5_def Let_def)

text \<open>
  Claim C8.  For every group of draws, empty groups and groups without any number
  included, and for every frequency counter, the exact-time consistency score and the
  window consistency score lie in the closed interval \<open>[0, 100]\<close>.
\<close>

theorem consistency_scores_bounded:
  "0 \<le> calculate_v5_consistency draws_list number_frequency
    \<and> calculate_v5_consistency draws_list number_frequency \<le> 100
    \<and> 0 \<le> calculate_window_consistency_v5 draws_list
    \<and> calculate_window_consistency_v5 draws_list \<le> 100"
  by (simp add: calculate_v5_consistency_bounds calculate_window_consistency_v5_bounds)

section \<open>Combination analysis on small groups\<close>

text \<open>
  Claim C10.  A group of fewer than three draws has no frequent combinations, whatever
  its draws contain.
\<close>

theorem analyze_v5_combinations_small_group:
  "length draws_list < 3 \<Longrightarrow> analyze_v5_combinations draws_list = []"
  by (simp add: analyze_v5_combinations_def)

text \<open>
  Two draws that share the pair \<open>(1, 2)\<close>: the pair occurs twice, and the analysis
  still returns nothing.
\<close>

theorem analyze_v5_combinations_small_group_witness:
  "length [[1, 2], [1, 2 :: int]] < 3
    \<and> count_list (group_combinations [[1, 2], [1, 2]]) [1, 2] = 2
    \<and> analyze_v5_combinations [[1, 2], [1, 2]] = []"
proof -
  have "count_list (group_combinations [[1, 2], [1, 2]]) [1, 2] = 2"
    by (simp add: group_combinations_def draw_combinations_def numeral_2_eq_2)
  then show ?thesis
    using analyze_v5_combinations_small_group [of "[[1, 2], [1, 2]]"] by simp
qed

section \<open>Recommendations\<close>

lemma times_to_analyze_absent:
  assumes "t \<notin> set (map fst (time_patterns self))" "t \<noteq> []"
  shows "times_to_analyze self (Some t) = []"
  using assms by (simp add: times_to_analyze_def)

lemma sample_time_patterns:
  "time_patterns sample_analyzer = [(''08:03'', exact_time_pattern ''07:58'' sample_rows)]"
  by (simp add: sample_analyzer_def analyze_exact_time_patterns_v5_def sample_groups_def
      MIN_DRAWS_FOR_ANALYSIS_def sample_rows_def)

text \<open>
  Claim C4, as amended.  For every non-empty time key that is absent from the slot
  summaries, a request for a recommendation for that key returns the empty dictionary:
  nothing is analysed, no error is signalled and no fallback entry is built.
\<close>

theorem generate_v5_recommendations_absent:
  assumes "t \<notin> set (map fst (time_patterns self))" "t \<noteq> []"
  shows "generate_v5_recommendations self (Some t) ball_count = []"
  using assms by (simp add: generate_v5_recommendations_def times_to_analyze_absent)

theorem generate_v5_recommendations_absent_witness:
  "''09:47'' \<notin> set (map fst (time_patterns sample_analyzer))
    \<and> generate_v5_recommendations sample_analyzer (Some ''09:47'') None = []"
  using generate_v5_recommendations_absent [of "''09:47''" sample_analyzer None]
  by (simp add: sample_time_patterns)

text \<open>
  Claim C4 as stated fails.  The sample analyzer holds a summary for 08:03; asked for
  the absent key 12:00 with four balls, it returns the empty dictionary, which has no
  entry of confidence 60 or any other fallback content.
\<close>

theorem generate_v5_recommendations_absent_counterexample:
  "generate_v5_recommendations sample_analyzer (Some ''12:00'') (Some 4) = []
    \<and> map_of (time_patterns sample_analyzer) ''12:00'' = None
    \<and> \<not> (\<exists>r. (''12:00'', r) \<in> set (generate_v5_recommendations sample_analyzer (Some ''12:00'') (Some 4))
           \<and> confidence_level r = 60)"
proof -
  have "generate_v5_recommendations sample_analyzer (Some ''12:00'') (Some 4) = []"
    by (simp add: generate_v5_recommendations_def times_to_analyze_def sample_time_patterns)
  then show ?thesis
    by (simp add: sample_time_patterns)
qed

lemma set_dict_set: "set (dict_set kvs k v) \<subseteq> insert (k, v) (set kvs)"
  by (induction kvs k v rule: dict_set.induct) auto

lemma analyze_exact_time_patterns_v5_entries:
  assumes "(time_key, pattern_data) \<in> set (analyze_exact_time_patterns_v5 time_groups patterns0)"
  shows "(time_key, pattern_data) \<in> set patterns0 \<or>
    (\<exists>corrected rows. ((time_key, corrected), rows) \<in> set time_groups
       \<and> MIN_DRAWS_FOR_ANALYSIS \<le> length rows
       \<and> pattern_data = exact_time_pattern corrected rows)"
  using assms
proof (induction time_groups arbitrary: patterns0)
  case Nil
  then show ?case by (simp add: analyze_exact_time_patterns_v5_def)
next
  case (Cons g gs)
  obtain k c rows where g: "g = ((k, c), rows)"
    by (metis surj_pair)
  let ?p = "if length rows \<ge> MIN_DRAWS_FOR_ANALYSIS
            then dict_set patterns0 k (exact_time_pattern c rows) else patterns0"
  have step: "analyze_exact_time_patterns_v5 (g # gs) patterns0 =
      analyze_exact_time_patterns_v5 gs ?p"
    by (simp add: analyze_exact_time_patterns_v5_def g)
  from Cons.prems have "(time_key, pattern_data) \<in> set (analyze_exact_time_patterns_v5 gs ?p)"
    by (simp only: step)
  from Cons.IH [OF this] show ?case
  proof
    assume "(time_key, pattern_data) \<in> set ?p"
    then show ?thesis
      using set_dict_set [of patterns0 k "exact_time_pattern c rows"]
      by (auto simp: g split: if_splits)
  next
    assume "\<exists>corrected rows. ((time_key, corrected), rows) \<in> set gs
       \<and> MIN_DRAWS_FOR_ANALYSIS \<le> length rows
       \<and> pattern_data = exact_time_pattern corrected rows"
    then show ?thesis by auto
  qed
qed

lemma calculate_v5_confidence_formula:
  "calculate_v5_confidence self pattern_data time_key =
     min (50 + min (real (total_draws pattern_data) * 1.5) 25
          + consistency_score pattern_data * 0.4
          + real (length (frequent_combinations pattern_data)) * 2.0
          + (if corrected_time pattern_data \<noteq> time_key then 5 else 0)
          + (if time_key \<in> set (take 5 (map fst (optimal_times self))) then 10 else 0))
       95"
  by (simp add: calculate_v5_confidence_def Let_def BASE_CONFIDENCE_def DRAW_MULTIPLIER_def
      CONSISTENCY_MULTIPLIER_def COMBINATION_MULTIPLIER_def MAX_CONFIDENCE_def)

lemma calculate_v5_confidence_bounds:
  assumes "0 \<le> consistency_score pattern_data"
  shows "50 \<le> calculate_v5_confidence self pattern_data time_key"
    and "calculate_v5_confidence self pattern_data time_key \<le> 95"
proof -
  have "0 \<le> min (real (total_draws pattern_data) * 1.5) 25"
    by simp
  moreover have "0 \<le> consistency_score pattern_data * 0.4"
    using assms by simp
  moreover have "0 \<le> real (length (frequent_combinations pattern_data)) * 2.0"
    by simp
  ultimately show "50 \<le> calculate_v5_confidence self pattern_data time_key"
    unfolding calculate_v5_confidence_formula by (simp add: add_nonneg_nonneg)
  show "calculate_v5_confidence self pattern_data time_key \<le> 95"
    unfolding calculate_v5_confidence_formula by simp
qed

text \<open>
  Claim C5.  For every slot that the exact-time analysis has put into the slot
  summaries, the confidence is
  \<open>50 + min(totalDraws*1.5, 25) + consistencyScore*0.4 + comboCount*2.0 + timingBoost +
  optimalBoost\<close>, capped at 95, where the timing boost is 5 exactly when the corrected
  time key differs from the raw time key and the optimal boost is 10 exactly when the
  key is among the first five keys of the ranking; and the confidence lies in
  \<open>[50, 95]\<close>.
\<close>

theorem calculate_v5_confidence_analyzed_slot:
  assumes "(time_key, pattern_data) \<in> set (analyze_exact_time_patterns_v5 time_groups [])"
  shows "calculate_v5_confidence self pattern_data time_key =
     min (50 + min (real (total_draws pattern_data) * 1.5) 25
          + consistency_score pattern_data * 0.4
          + real (length (frequent_combinations pattern_data)) * 2.0
          + (if corrected_time pattern_data \<noteq> time_key then 5 else 0)
          + (if time_key \<in> set (take 5 (map fst (optimal_times self))) then 10 else 0))
       95
    \<and> 50 \<le> calculate_v5_confidence self pattern_data time_key
    \<and> calculate_v5_confidence self pattern_data time_key \<le> 95"
proof -
  from analyze_exact_time_patterns_v5_entries [OF assms]
  obtain corrected rows where "pattern_data = exact_time_pattern corrected rows"
    by auto
  then have "0 \<le> consistency_score pattern_data"
    by (simp add: exact_time_pattern_def Let_def calculate_v5_consistency_bounds)
  then show ?thesis
    using calculate_v5_confidence_formula [of self pattern_data time_key]
      calculate_v5_confidence_bounds [of pattern_data self time_key]
    by simp
qed

theorem calculate_v5_confidence_analyzed_slot_witness:
  "(''08:03'', exact_time_pattern ''07:58'' sample_rows)
      \<in> set (analyze_exact_time_patterns_v5 sample_groups [])
    \<and> 50 \<le> calculate_v5_confidence sample_analyzer
              (exact_time_pattern ''07:58'' sample_rows) ''08:03''
    \<and> calculate_v5_confidence sample_analyzer
          (exact_time_pattern ''07:58'' sample_rows) ''08:03'' \<le> 95"
proof -
  have m: "(''08:03'', exact_time_pattern ''07:58'' sample_rows)
      \<in> set (analyze_exact_time_patterns_v5 sample_groups [])"
    using sample_time_patterns by (simp add: sample_analyzer_def)
  note c = calculate_v5_confidence_analyzed_slot [OF m, of sample_analyzer]
  show ?thesis
    using m c [THEN conjunct2] by blast
qed

section \<open>Stable descending sort\<close>

lemma insort_key_append_right:
  assumes "\<forall>y\<in>set ys. f x \<le> f y"
  shows "insort_key f x (xs @ ys) = insort_key f x xs @ ys"
proof (induction xs)
  case Nil
  from assms show ?case by (cases ys) auto
next
  case (Cons a xs)
  then show ?case by simp
qed

lemma sort_key_append_separated:
  assumes "\<forall>x\<in>set xs. \<forall>y\<in>set ys. f x \<le> f y"
  shows "sort_key f (xs @ ys) = sort_key f xs @ sort_key f ys"
  using assms
proof (induction xs)
  case Nil
  then show ?case by simp
next
  case (Cons a xs)
  then have "sort_key f (xs @ ys) = sort_key f xs @ sort_key f ys"
    by simp
  moreover have "\<forall>y\<in>set (sort_key f ys). f a \<le> f y"
    using Cons.prems by simp
  ultimately show ?case
    by (simp add: insort_key_append_right)
qed

lemma sorted_reverse_append:
  assumes "\<forall>x\<in>set xs. \<forall>y\<in>set ys. key y \<le> key x"
  shows "sorted_reverse key (xs @ ys) = sorted_reverse key xs @ sorted_reverse key ys"
  unfolding sorted_reverse_def using assms by (intro sort_key_append_separated) simp

section \<open>Persistent numbers\<close>

lemma classify_persistent_step:
  "classify_persistent n tiers item =
     \<lparr>very_high = very_high tiers @ filter (tier_very_high n) [item],
      high = high tiers @ filter (tier_high n) [item],
      moderate = moderate tiers @ filter (tier_moderate n) [item]\<rparr>"
  by (simp add: classify_persistent_def Let_def tier_very_high_def tier_high_def
      tier_moderate_def appearance_rate_def)

lemma foldl_classify_persistent:
  "foldl (classify_persistent n) tiers fc =
     \<lparr>very_high = very_high tiers @ filter (tier_very_high n) fc,
      high = high tiers @ filter (tier_high n) fc,
      moderate = moderate tiers @ filter (tier_moderate n) fc\<rparr>"
proof (induction fc arbitrary: tiers)
  case Nil
  show ?case by simp
next
  case (Cons item fc)
  have "foldl (classify_persistent n) tiers (item # fc) =
      foldl (classify_persistent n) (classify_persistent n tiers item) fc"
    by simp
  also have "\<dots> =
     \<lparr>very_high = very_high (classify_persistent n tiers item) @ filter (tier_very_high n) fc,
      high = high (classify_persistent n tiers item) @ filter (tier_high n) fc,
      moderate = moderate (classify_persistent n tiers item) @ filter (tier_moderate n) fc\<rparr>"
    by (rule Cons.IH)
  also have "\<dots> =
     \<lparr>very_high = very_high tiers @ filter (tier_very_high n) (item # fc),
      high = high tiers @ filter (tier_high n) (item # fc),
      moderate = moderate tiers @ filter (tier_moderate n) (item # fc)\<rparr>"
    by (simp add: classify_persistent_step)
  finally show ?case .
qed

lemma persistent_tiers_of_filters:
  "very_high (persistent_tiers_of draws_list fc) = filter (tier_very_high (length draws_list)) fc"
  "high (persistent_tiers_of draws_list fc) = filter (tier_high (length draws_list)) fc"
  "moderate (persistent_tiers_of draws_list fc) = filter (tier_moderate (length draws_list)) fc"
  by (simp_all add: persistent_tiers_of_def foldl_classify_persistent)

lemma tiers_count_order:
  assumes "0 < n"
  shows "tier_very_high n a \<Longrightarrow> tier_high n b \<Longrightarrow> snd b \<le> snd a"
    and "tier_very_high n a \<Longrightarrow> tier_moderate n b \<Longrightarrow> snd b \<le> snd a"
    and "tier_high n a \<Longrightarrow> tier_moderate n b \<Longrightarrow> snd b \<le> snd a"
proof -
  have mono: "snd b \<le> snd a" if "appearance_rate n b < appearance_rate n a" for a b
  proof -
    from that assms have "real (snd b) < real (snd a)"
      by (simp add: appearance_rate_def divide_less_cancel)
    then show ?thesis by simp
  qed
  show "tier_very_high n a \<Longrightarrow> tier_high n b \<Longrightarrow> snd b \<le> snd a"
    by (rule mono) (simp add: tier_very_high_def tier_high_def)
  show "tier_very_high n a \<Longrightarrow> tier_moderate n b \<Longrightarrow> snd b \<le> snd a"
    by (rule mono) (simp add: tier_very_high_def tier_moderate_def)
  show "tier_high n a \<Longrightarrow> tier_moderate n b \<Longrightarrow> snd b \<le> snd a"
    by (rule mono) (simp add: tier_high_def tier_moderate_def)
qed

lemma find_v5_persistent_numbers_tiers:
  assumes "draws_list \<noteq> []"
  shows "find_v5_persistent_numbers draws_list fc =
      map fst (sorted_reverse snd (very_high (persistent_tiers_of draws_list fc)))
    @ map fst (sorted_reverse snd (high (persistent_tiers_of draws_list fc)))
    @ map fst (sorted_reverse snd (moderate (persistent_tiers_of draws_list fc)))"
proof -
  let ?n = "length draws_list"
  let ?vh = "filter (tier_very_high ?n) fc"
  let ?h = "filter (tier_high ?n) fc"
  let ?m = "filter (tier_moderate ?n) fc"
  from assms have pos: "0 < ?n" by simp
  have "\<forall>x\<in>set ?vh. \<forall>y\<in>set (?h @ ?m). snd y \<le> snd x"
    using tiers_count_order(1,2) [OF pos] by auto
  then have "sorted_reverse snd (?vh @ ?h @ ?m) =
      sorted_reverse snd ?vh @ sorted_reverse snd (?h @ ?m)"
    by (rule sorted_reverse_append)
  moreover have "\<forall>x\<in>set ?h. \<forall>y\<in>set ?m. snd y \<le> snd x"
    using tiers_count_order(3) [OF pos] by auto
  then have "sorted_reverse snd (?h @ ?m) = sorted_reverse snd ?h @ sorted_reverse snd ?m"
    by (rule sorted_reverse_append)
  ultimately show ?thesis
    using assms by (simp add: find_v5_persistent_numbers_def Let_def persistent_tiers_of_filters)
qed

text \<open>
  Claim C2, as amended.  For every non-empty group of draws and every frequency counter,
  the three tier lists hold the items of the counter with appearance rate at least 0.40,
  from 0.25 and below 0.40, and from 0.15 and below 0.25; the tiers exclude one
  another, so an item is in at most one tier, and it is in one exactly when its rate is
  at least 0.15 (an observed number with a lower rate is in no tier and not in the
  output).  The returned list is the very-high tier, then the high tier, then the
  moderate tier, each sorted by raw count descending (stably).  This is also what the
  single stable sort of the concatenated tiers that the code performs yields, because a
  higher tier never holds a smaller count than a lower one.
\<close>

theorem find_v5_persistent_numbers_tiered:
  assumes "draws_list \<noteq> []"
  shows "very_high (persistent_tiers_of draws_list fc)
        = filter (tier_very_high (length draws_list)) fc
    \<and> high (persistent_tiers_of draws_list fc) = filter (tier_high (length draws_list)) fc
    \<and> moderate (persistent_tiers_of draws_list fc)
        = filter (tier_moderate (length draws_list)) fc
    \<and> (\<forall>item. \<not> (tier_very_high (length draws_list) item \<and> tier_high (length draws_list) item)
          \<and> \<not> (tier_very_high (length draws_list) item \<and> tier_moderate (length draws_list) item)
          \<and> \<not> (tier_high (length draws_list) item \<and> tier_moderate (length draws_list) item)
          \<and> ((tier_very_high (length draws_list) item \<or> tier_high (length draws_list) item
                \<or> tier_moderate (length draws_list) item)
              \<longleftrightarrow> appearance_rate (length draws_list) item \<ge> 0.15))
    \<and> find_v5_persistent_numbers draws_list fc =
        map fst (sorted_reverse snd (very_high (persistent_tiers_of draws_list fc)))
      @ map fst (sorted_reverse snd (high (persistent_tiers_of draws_list fc)))
      @ map fst (sorted_reverse snd (moderate (persistent_tiers_of draws_list fc)))
    \<and> find_v5_persistent_numbers draws_list fc =
        map fst (sorted_reverse snd
          (very_high (persistent_tiers_of draws_list fc)
           @ high (persistent_tiers_of draws_list fc)
           @ moderate (persistent_tiers_of draws_list fc)))"
proof -
  have whole: "find_v5_persistent_numbers draws_list fc =
        map fst (sorted_reverse snd
          (very_high (persistent_tiers_of draws_list fc)
           @ high (persistent_tiers_of draws_list fc)
           @ moderate (persistent_tiers_of draws_list fc)))"
    using assms by (simp add: find_v5_persistent_numbers_def Let_def)
  have excl: "\<not> (tier_very_high n item \<and> tier_high n item)
      \<and> \<not> (tier_very_high n item \<and> tier_moderate n item)
      \<and> \<not> (tier_high n item \<and> tier_moderate n item)
      \<and> ((tier_very_high n item \<or> tier_high n item \<or> tier_moderate n item)
          \<longleftrightarrow> appearance_rate n item \<ge> 0.15)" for n item
    by (auto simp: tier_very_high_def tier_high_def tier_moderate_def)
  show ?thesis
    using find_v5_persistent_numbers_tiers [OF assms, of fc] whole excl
    by (simp only: persistent_tiers_of_filters) blast
qed

lemma sample_window_counter: "Counter (concat sample_window_draws) = [(1, 8), (2, 1)]"
  by (simp add: sample_window_draws_def Counter_def)

lemma sample_window_sorted: "sorted_reverse snd [(1 :: int, 8 :: nat), (2, 1)] = [(1, 8), (2, 1)]"
  by (simp add: sorted_reverse_def)

text \<open>
  In the sample window every number is persistent at some tier but 2, with rate
  \<open>1/8\<close>; the counts 8 and 1 are sorted within the very-high tier.
\<close>

theorem find_v5_persistent_numbers_tiered_witness:
  "sample_window_draws \<noteq> []
    \<and> very_high (persistent_tiers_of sample_window_draws (Counter (concat sample_window_draws)))
        = [(1, 8)]
    \<and> high (persistent_tiers_of sample_window_draws (Counter (concat sample_window_draws))) = []
    \<and> moderate (persistent_tiers_of sample_window_draws (Counter (concat sample_window_draws))) = []
    \<and> find_v5_persistent_numbers sample_window_draws (Counter (concat sample_window_draws)) = [1]"
proof -
  have ne: "sample_window_draws \<noteq> []" and len: "length sample_window_draws = 8"
    by (simp_all add: sample_window_draws_def)
  note t = find_v5_persistent_numbers_tiered [OF ne, of "Counter (concat sample_window_draws)"]
  have vh: "very_high (persistent_tiers_of sample_window_draws (Counter (concat sample_window_draws)))
        = [(1, 8)]"
    using t by (simp add: len sample_window_counter tier_very_high_def appearance_rate_def)
  have h: "high (persistent_tiers_of sample_window_draws (Counter (concat sample_window_draws))) = []"
    using t by (simp add: len sample_window_counter tier_high_def appearance_rate_def)
  have m: "moderate (persistent_tiers_of sample_window_draws (Counter (concat sample_window_draws))) = []"
    using t by (simp add: len sample_window_counter tier_moderate_def appearance_rate_def)
  have "find_v5_persistent_numbers sample_window_draws (Counter (concat sample_window_draws)) = [1]"
    using t by (simp add: vh h m sorted_reverse_def)
  with ne vh h m show ?thesis by simp
qed

text \<open>
  Claim C2 as stated fails where it says that every observed number is put into exactly
  one tier.  In the sample window the number 2 is observed once in eight draws; its
  rate \<open>0.125\<close> is below every threshold, it is in none of the three tiers and the
  returned list leaves it out.
\<close>

theorem find_v5_persistent_numbers_counterexample:
  "(2, 1) \<in> set (Counter (concat sample_window_draws))
    \<and> (2, 1) \<notin> set (very_high (persistent_tiers_of sample_window_draws
                        (Counter (concat sample_window_draws))))
    \<and> (2, 1) \<notin> set (high (persistent_tiers_of sample_window_draws
                        (Counter (concat sample_window_draws))))
    \<and> (2, 1) \<notin> set (moderate (persistent_tiers_of sample_window_draws
                        (Counter (concat sample_window_draws))))
    \<and> find_v5_persistent_numbers sample_window_draws (Counter (concat sample_window_draws)) = [1]"
proof -
  have ne: "sample_window_draws \<noteq> []" and len: "length sample_window_draws = 8"
    by (simp_all add: sample_window_draws_def)
  have t: "persistent_tiers_of sample_window_draws (Counter (concat sample_window_draws))
      = \<lparr>very_high = [(1, 8)], high = [], moderate = []\<rparr>"
    by (simp add: persistent_tiers_of_def len sample_window_counter classify_persistent_def)
  have "find_v5_persistent_numbers sample_window_draws (Counter (concat sample_window_draws)) = [1]"
    using ne by (simp add: find_v5_persistent_numbers_def t sorted_reverse_def Let_def)
  then show ?thesis
    unfolding t by (simp add: sample_window_counter)
qed

section \<open>Counters\<close>

lemma Counter_snoc: "Counter (xs @ [x]) = counter_incr x (Counter xs)"
  by (simp add: Counter_def)

lemma map_fst_counter_incr:
  "map fst (counter_incr x fc) =
     (if x \<in> set (map fst fc) then map fst fc else map fst fc @ [x])"
  by (induction x fc rule: counter_incr.induct) auto

lemma map_of_counter_incr:
  "map_of (counter_incr x fc) k =
     (if k = x then Some (case map_of fc x of None \<Rightarrow> 1 | Some c \<Rightarrow> c + 1)
      else map_of fc k)"
  by (induction x fc rule: counter_incr.induct) auto

lemma sum_counter_incr: "sum_list (map snd (counter_incr x fc)) = Suc (sum_list (map snd fc))"
  by (induction x fc rule: counter_incr.induct) auto

lemma keys_Counter: "set (map fst (Counter xs)) = set xs"
  by (induction xs rule: rev_induct) (auto simp: Counter_def Counter_snoc map_fst_counter_incr)

lemma keys_Counter_image: "fst ` set (Counter xs) = set xs"
  using keys_Counter [of xs] by simp

lemma distinct_keys_Counter: "distinct (map fst (Counter xs))"
proof (induction xs rule: rev_induct)
  case Nil
  show ?case by (simp add: Counter_def)
next
  case (snoc x xs)
  then show ?case
    by (simp add: Counter_snoc map_fst_counter_incr)
qed

lemma map_of_Counter:
  "map_of (Counter xs) k = (if k \<in> set xs then Some (count_list xs k) else None)"
proof (induction xs arbitrary: k rule: rev_induct)
  case Nil
  show ?case by (simp add: Counter_def)
next
  case (snoc x xs)
  then show ?case
    by (simp add: Counter_snoc map_of_counter_incr)
qed

lemma Counter_entry:
  assumes "(k, c) \<in> set (Counter xs)"
  shows "k \<in> set xs" and "c = count_list xs k"
proof -
  from assms have "map_of (Counter xs) k = Some c"
    by (simp add: map_of_eq_Some_iff [OF distinct_keys_Counter])
  then show "k \<in> set xs" and "c = count_list xs k"
    by (simp_all add: map_of_Counter split: if_splits)
qed

lemma sum_Counter: "sum_list (map snd (Counter xs)) = length xs"
  by (induction xs rule: rev_induct) (simp_all add: Counter_def Counter_snoc sum_counter_incr)

lemma length_Counter: "length (Counter xs) = card (set xs)"
proof -
  have "length (Counter xs) = length (map fst (Counter xs))" by simp
  also have "\<dots> = card (set (map fst (Counter xs)))"
    using distinct_keys_Counter by (rule distinct_card [symmetric])
  finally show ?thesis by (simp only: keys_Counter)
qed

lemma first_index_less: "x \<in> set xs \<Longrightarrow> first_index xs x < length xs"
  unfolding first_index_def by (induction xs) auto

lemma first_index_snoc_old: "k \<in> set xs \<Longrightarrow> first_index (xs @ [x]) k = first_index xs k"
  by (simp add: first_index_def takeWhile_append1)

lemma first_index_snoc_new:
  assumes "x \<notin> set xs"
  shows "first_index (xs @ [x]) x = length xs"
proof -
  have "takeWhile (\<lambda>y. y \<noteq> x) (xs @ [x]) = xs @ takeWhile (\<lambda>y. y \<noteq> x) [x]"
    using assms by (intro takeWhile_append2) auto
  then show ?thesis
    by (simp add: first_index_def)
qed

lemma keys_Counter_first_seen:
  "sorted_wrt (\<lambda>a b. first_index xs a < first_index xs b) (map fst (Counter xs))"
proof (induction xs rule: rev_induct)
  case Nil
  show ?case by (simp add: Counter_def)
next
  case (snoc x xs)
  have old: "sorted_wrt (\<lambda>a b. first_index (xs @ [x]) a < first_index (xs @ [x]) b)
      (map fst (Counter xs))"
    using snoc
    by (rule sorted_wrt_mono_rel [rotated]) (use keys_Counter [of xs] in \<open>auto simp: first_index_snoc_old\<close>)
  show ?case
  proof (cases "x \<in> set xs")
    case True
    with old show ?thesis
      by (simp add: Counter_snoc map_fst_counter_incr keys_Counter_image)
  next
    case False
    have "\<forall>k\<in>set (map fst (Counter xs)). first_index (xs @ [x]) k < first_index (xs @ [x]) x"
      using False by (simp add: keys_Counter_image first_index_snoc_old first_index_snoc_new
          first_index_less)
    with old False show ?thesis
      by (simp add: Counter_snoc map_fst_counter_incr keys_Counter_image sorted_wrt_append)
  qed
qed

section \<open>Ranking by a stable descending sort\<close>

lemma sorted_wrt_insort_key_tie:
  assumes "sorted_wrt (\<lambda>a b. f a < f b \<or> (f a = f b \<and> g a < g b)) xs"
    and "\<forall>y\<in>set xs. g x < g y"
  shows "sorted_wrt (\<lambda>a b. f a < f b \<or> (f a = f b \<and> g a < g b)) (insort_key f x xs)"
  using assms
proof (induction xs)
  case Nil
  then show ?case by simp
next
  case (Cons y ys)
  show ?case
  proof (cases "f x \<le> f y")
    case True
    have "\<forall>z\<in>set ys. f y \<le> f z"
      using Cons.prems(1) by auto
    with True Cons.prems show ?thesis
      by (auto simp: le_less)
  next
    case False
    with Cons show ?thesis
      by (auto simp: set_insort_key)
  qed
qed

lemma sorted_wrt_sort_key_tie:
  fixes f :: "'a \<Rightarrow> int" and g :: "'a \<Rightarrow> nat"
  assumes "sorted_wrt (\<lambda>a b. g a < g b) xs"
  shows "sorted_wrt (\<lambda>a b. f a < f b \<or> (f a = f b \<and> g a < g b)) (sort_key f xs)"
  using assms
proof (induction xs)
  case Nil
  show ?case by simp
next
  case (Cons x xs)
  then have "sorted_wrt (\<lambda>a b. f a < f b \<or> (f a = f b \<and> g a < g b)) (sort_key f xs)"
    by simp
  moreover have "\<forall>y\<in>set (sort_key f xs). g x < g y"
    using Cons.prems by simp
  ultimately show ?case
    by (simp add: sorted_wrt_insort_key_tie)
qed

lemma sorted_reverse_ranking:
  fixes g :: "'a \<Rightarrow> nat"
  assumes "sorted_wrt (\<lambda>a b. g a < g b) xs"
  shows "sorted_wrt (\<lambda>a b. key b < key a \<or> (key a = key b \<and> g a < g b))
    (sorted_reverse key xs)"
proof -
  have "sorted_wrt (\<lambda>a b. - int (key a) < - int (key b)
      \<or> (- int (key a) = - int (key b) \<and> g a < g b)) (sort_key (\<lambda>x. - int (key x)) xs)"
    using assms by (rule sorted_wrt_sort_key_tie)
  then show ?thesis
    by (simp add: sorted_reverse_def)
qed

lemma set_sorted_reverse: "set (sorted_reverse key xs) = set xs"
  by (simp add: sorted_reverse_def)

lemma length_sorted_reverse: "length (sorted_reverse key xs) = length xs"
  by (simp add: sorted_reverse_def)

lemma mset_sorted_reverse: "mset (sorted_reverse key xs) = mset xs"
  by (simp add: sorted_reverse_def)

lemma distinct_map_sorted_reverse:
  "distinct (map h (sorted_reverse key xs)) = distinct (map h xs)"
proof -
  have "mset (map h (sorted_reverse key xs)) = mset (map h xs)"
    by (simp add: mset_sorted_reverse)
  then show ?thesis
    by (rule mset_eq_imp_distinct_iff)
qed

lemma sorted_reverse_map:
  fixes h :: "'b \<Rightarrow> 'a" and key :: "'a \<Rightarrow> nat"
  shows "sorted_reverse key (map h xs) = map h (sorted_reverse (key \<circ> h) xs)"
proof -
  have "insort_key f (h x) (map h ys) = map h (insort_key (f \<circ> h) x ys)"
    for f :: "'a \<Rightarrow> int" and x ys
    by (induction ys) auto
  then have "sort_key f (map h xs) = map h (sort_key (f \<circ> h) xs)" for f :: "'a \<Rightarrow> int"
    by (induction xs) auto
  then show ?thesis
    by (simp add: sorted_reverse_def comp_def)
qed

text \<open>
  The items selected from a counter, sorted by count descending and cut to the first
  \<open>n\<close>: what is kept is ranked by count and first occurrence, and whatever is cut
  ranks after everything kept.
\<close>

lemma top_of_counter:
  fixes xs :: "'a list" and n :: nat and P :: "'a \<times> nat \<Rightarrow> bool"
  defines "kept \<equiv> take n (sorted_reverse snd (filter P (Counter xs)))"
  shows "distinct (map fst kept)"
    and "\<forall>e\<in>set kept. fst e \<in> set xs \<and> snd e = count_list xs (fst e) \<and> P e"
    and "sorted_wrt (ranks_before xs) (map fst kept)"
    and "length kept = min n (length (filter P (Counter xs)))"
    and "\<forall>e\<in>set (Counter xs). P e \<and> fst e \<notin> set (map fst kept) \<longrightarrow>
           length kept = n \<and> (\<forall>a\<in>set kept. ranks_before xs (fst a) (fst e))"
proof -
  let ?sel = "filter P (Counter xs)"
  let ?srt = "sorted_reverse snd ?sel"
  let ?R = "\<lambda>a b :: 'a \<times> nat. snd b < snd a \<or> (snd a = snd b \<and> first_index xs (fst a) < first_index xs (fst b))"
  have entry: "fst e \<in> set xs \<and> snd e = count_list xs (fst e)" if "e \<in> set (Counter xs)" for e
    using Counter_entry [of "fst e" "snd e" xs] that by simp
  have dk: "distinct (map fst ?srt)"
    by (simp add: distinct_map_sorted_reverse distinct_map_filter distinct_keys_Counter)
  have sub: "set kept \<subseteq> set ?sel"
    unfolding kept_def using set_take_subset [of n ?srt] by (simp add: set_sorted_reverse)
  show "distinct (map fst kept)"
    unfolding kept_def using dk by (simp add: take_map [symmetric] del: distinct_map)
  show mem: "\<forall>e\<in>set kept. fst e \<in> set xs \<and> snd e = count_list xs (fst e) \<and> P e"
    using sub entry by auto
  have "sorted_wrt (\<lambda>a b. first_index xs (fst a) < first_index xs (fst b)) (Counter xs)"
    using keys_Counter_first_seen [of xs] by (simp add: sorted_wrt_map)
  then have "sorted_wrt (\<lambda>a b. first_index xs (fst a) < first_index xs (fst b)) ?sel"
    by (rule sorted_wrt_filter)
  then have "sorted_wrt ?R ?srt"
    by (rule sorted_reverse_ranking)
  then have "sorted_wrt (\<lambda>a b. ranks_before xs (fst a) (fst b)) ?srt"
  proof (rule sorted_wrt_mono_rel [rotated])
    fix a b assume "a \<in> set ?srt" "b \<in> set ?srt" "?R a b"
    then show "ranks_before xs (fst a) (fst b)"
      using entry [of a] entry [of b] by (auto simp: ranks_before_def set_sorted_reverse)
  qed
  then have full: "sorted_wrt (\<lambda>a b. ranks_before xs (fst a) (fst b)) (take n ?srt @ drop n ?srt)"
    by simp
  then show "sorted_wrt (ranks_before xs) (map fst kept)"
    unfolding kept_def by (simp add: sorted_wrt_append sorted_wrt_map del: append_take_drop_id)
  show "length kept = min n (length ?sel)"
    unfolding kept_def by (simp add: length_sorted_reverse min.commute)
  show "\<forall>e\<in>set (Counter xs). P e \<and> fst e \<notin> set (map fst kept) \<longrightarrow>
           length kept = n \<and> (\<forall>a\<in>set kept. ranks_before xs (fst a) (fst e))"
  proof (intro ballI impI)
    fix e assume e: "e \<in> set (Counter xs)" and "P e \<and> fst e \<notin> set (map fst kept)"
    then have "e \<in> set ?srt" and "e \<notin> set kept"
      by (auto simp: set_sorted_reverse)
    then have "e \<in> set (take n ?srt @ drop n ?srt)" and nt: "e \<notin> set (take n ?srt)"
      by (simp_all add: kept_def)
    then have d: "e \<in> set (drop n ?srt)"
      by (simp del: append_take_drop_id)
    then have "n < length ?srt"
      by (cases "n < length ?srt") auto
    then have "length kept = n"
      by (simp add: kept_def)
    moreover have "\<forall>a\<in>set kept. ranks_before xs (fst a) (fst e)"
      using full d unfolding kept_def by (simp add: sorted_wrt_append del: append_take_drop_id)
    ultimately show "length kept = n \<and> (\<forall>a\<in>set kept. ranks_before xs (fst a) (fst e))" ..
  qed
qed

section \<open>Hot numbers\<close>

lemma hot_numbers_as_top:
  "hot_numbers (exact_time_pattern corrected rows) =
     map fst (take 15 (sorted_reverse snd
       (filter (\<lambda>e. True) (Counter (all_numbers_of rows)))))"
  by (simp add: exact_time_pattern_def Let_def most_common_def MAX_RECOMMENDATIONS_def
      all_numbers_of_def)

text \<open>
  Claim C7, as amended.  The hot-numbers list of a group holds up to 15 distinct numbers
  of the group, ordered by descending occurrence count and, among numbers with equal
  counts, by the position of their first occurrence in the flattened group (draws in
  order, each draw ascending); every number left out ranks after every number kept.
  The list is determined by the sequence of draws, and the tie-break is the order of
  first occurrence, not the numeric value.
\<close>

theorem hot_numbers_ranking:
  "distinct (hot_numbers (exact_time_pattern corrected rows))
    \<and> set (hot_numbers (exact_time_pattern corrected rows)) \<subseteq> set (all_numbers_of rows)
    \<and> length (hot_numbers (exact_time_pattern corrected rows))
        = min 15 (card (set (all_numbers_of rows)))
    \<and> sorted_wrt (ranks_before (all_numbers_of rows))
        (hot_numbers (exact_time_pattern corrected rows))
    \<and> (\<forall>x\<in>set (all_numbers_of rows).
          x \<notin> set (hot_numbers (exact_time_pattern corrected rows)) \<longrightarrow>
          length (hot_numbers (exact_time_pattern corrected rows)) = 15 \<and>
          (\<forall>y\<in>set (hot_numbers (exact_time_pattern corrected rows)).
             ranks_before (all_numbers_of rows) y x))"
proof -
  let ?xs = "all_numbers_of rows"
  let ?kept = "take 15 (sorted_reverse snd (filter (\<lambda>e. True) (Counter ?xs)))"
  note t = top_of_counter [where xs = ?xs and n = 15 and P = "\<lambda>e. True"]
  have hot: "hot_numbers (exact_time_pattern corrected rows) = map fst ?kept"
    by (rule hot_numbers_as_top)
  have d: "distinct (map fst ?kept)"
    by (rule t(1))
  have s: "set (map fst ?kept) \<subseteq> set ?xs"
    using t(2) by auto
  have l: "length (map fst ?kept) = min 15 (card (set ?xs))"
    using t(4) by (simp add: length_Counter)
  have o: "sorted_wrt (ranks_before ?xs) (map fst ?kept)"
    by (rule t(3))
  have c: "length (map fst ?kept) = 15 \<and> (\<forall>y\<in>set (map fst ?kept). ranks_before ?xs y x)"
    if "x \<in> set ?xs" "x \<notin> set (map fst ?kept)" for x
  proof -
    from that(1) have "x \<in> fst ` set (Counter ?xs)"
      by (simp only: keys_Counter_image)
    then obtain e where e: "e \<in> set (Counter ?xs)" "fst e = x"
      by blast
    from that(2) e(2) have "True \<and> fst e \<notin> set (map fst ?kept)"
      by simp
    with bspec [OF t(5) e(1)]
    have "length ?kept = 15 \<and> (\<forall>a\<in>set ?kept. ranks_before ?xs (fst a) (fst e))"
      by (rule mp)
    with e(2) show ?thesis by simp
  qed
  then have c': "\<forall>x\<in>set ?xs. x \<notin> set (map fst ?kept) \<longrightarrow>
      length (map fst ?kept) = 15 \<and> (\<forall>y\<in>set (map fst ?kept). ranks_before ?xs y x)"
    by blast
  show ?thesis
    unfolding hot by (intro conjI d s l o c')
qed

lemma sample_hot: "hot_numbers (exact_time_pattern ''07:58'' sample_rows) = [5, 3, 7]"
  unfolding hot_numbers_as_top by code_simp

theorem hot_numbers_ranking_witness:
  "hot_numbers (exact_time_pattern ''07:58'' sample_rows) = [5, 3, 7]
    \<and> ranks_before (all_numbers_of sample_rows) 5 3
    \<and> ranks_before (all_numbers_of sample_rows) 3 7
    \<and> set [5, 3, 7] \<subseteq> set (all_numbers_of sample_rows)"
  using hot_numbers_ranking [of "''07:58''" sample_rows]
  by (simp add: sample_hot)

text \<open>
  Claim C7 as stated fails.  In the sample group 5 and 3 both occur twice; the list puts
  5 before 3, because 5 is drawn first, where ascending numeric value asks for 3
  before 5.  The same draws in reverse order give another list, so the result does
  depend on the order in which the counter met the numbers.
\<close>

theorem hot_numbers_counterexample:
  "hot_numbers (exact_time_pattern ''07:58'' sample_rows) = [5, 3, 7]
    \<and> count_list (all_numbers_of sample_rows) 5 = count_list (all_numbers_of sample_rows) 3
    \<and> (3 :: int) < 5
    \<and> mset (rev sample_rows) = mset sample_rows
    \<and> hot_numbers (exact_time_pattern ''07:58'' (rev sample_rows)) = [3, 5, 7]"
proof -
  have "count_list (all_numbers_of sample_rows) 5 = count_list (all_numbers_of sample_rows) 3"
    by code_simp
  moreover have "hot_numbers (exact_time_pattern ''07:58'' (rev sample_rows)) = [3, 5, 7]"
    unfolding hot_numbers_as_top by code_simp
  ultimately show ?thesis
    by (simp add: sample_hot)
qed

section \<open>Combination analysis\<close>

lemma set_combinations:
  "set (combinations xs r) = {ys \<in> set (subseqs xs). length ys = r}"
proof (induction xs r rule: combinations.induct)
  case (1 xs)
  have "[] \<in> set (subseqs xs)"
    by (induction xs) (auto simp: Let_def)
  then show ?case by auto
next
  case (2 r)
  show ?case by auto
next
  case (3 x xs r)
  then show ?case
    by (auto simp: Let_def)
qed

lemma set_draw_combinations:
  "set (draw_combinations d) =
     {sort c |c. c \<in> set (subseqs d) \<and> (length c = 2 \<or> length c = 3)}"
proof -
  have short: "c \<in> set (subseqs d) \<Longrightarrow> length c \<le> length d" for c
    by (induction d arbitrary: c) (auto simp: Let_def le_SucI)
  show ?thesis
  proof (cases "3 \<le> length d")
    case True
    then show ?thesis
      by (auto simp: draw_combinations_def set_combinations)
  next
    case False
    then have "\<forall>c\<in>set (subseqs d). length c \<noteq> 3"
      using short by fastforce
    with False show ?thesis
      by (auto simp: draw_combinations_def set_combinations)
  qed
qed

lemma set_group_combinations:
  "set (group_combinations draws_list) =
     (\<Union>d\<in>set draws_list.
        {sort c |c. c \<in> set (subseqs d) \<and> (length c = 2 \<or> length c = 3)})"
  by (simp add: group_combinations_def set_draw_combinations)

lemma foldl_counter_incr_Counter:
  "foldl (\<lambda>acc x. counter_incr x acc) (Counter xs) ys = Counter (xs @ ys)"
  by (simp add: Counter_def)

lemma count_draw_combinations_Counter:
  "count_draw_combinations (Counter xs) draw = Counter (xs @ draw_combinations draw)"
proof -
  have m: "foldl (\<lambda>acc c. counter_incr (sort c) acc) cc cs =
      foldl (\<lambda>acc x. counter_incr x acc) cc (map sort cs)" for cc :: "int list counter" and cs
    by (simp add: foldl_map)
  show ?thesis
    by (simp add: count_draw_combinations_def draw_combinations_def Let_def m
        foldl_counter_incr_Counter)
qed

lemma foldl_count_draw_combinations:
  "foldl count_draw_combinations (Counter xs) draws_list =
     Counter (xs @ group_combinations draws_list)"
proof (induction draws_list arbitrary: xs)
  case Nil
  show ?case by (simp add: group_combinations_def)
next
  case (Cons d ds)
  have "foldl count_draw_combinations (Counter xs) (d # ds) =
      foldl count_draw_combinations (Counter (xs @ draw_combinations d)) ds"
    by (simp add: count_draw_combinations_Counter)
  also have "\<dots> = Counter ((xs @ draw_combinations d) @ group_combinations ds)"
    by (rule Cons.IH)
  finally show ?case
    by (simp add: group_combinations_def)
qed

lemma combination_counter_Counter:
  "foldl count_draw_combinations [] draws_list = Counter (group_combinations draws_list)"
  using foldl_count_draw_combinations [of "[]" draws_list] by (simp add: Counter_def)

lemma analyze_v5_combinations_as_top:
  assumes "3 \<le> length draws_list"
  shows "analyze_v5_combinations draws_list =
     map (\<lambda>e. \<lparr>numbers = fst e, frequency = snd e,
                percentage = (real (snd e) / real (length draws_list)) * 100\<rparr>)
       (take 10 (sorted_reverse snd
          (filter (\<lambda>e. 2 \<le> snd e) (Counter (group_combinations draws_list)))))"
proof -
  let ?mk = "\<lambda>e :: int list \<times> nat. \<lparr>numbers = fst e, frequency = snd e,
                percentage = (real (snd e) / real (length draws_list)) * 100\<rparr>"
  let ?sel = "filter (\<lambda>e. 2 \<le> snd e) (Counter (group_combinations draws_list))"
  have k: "frequency \<circ> ?mk = snd"
    by (simp add: fun_eq_iff)
  have srt: "sorted_reverse frequency (map ?mk ?sel) = map ?mk (sorted_reverse snd ?sel)"
    using sorted_reverse_map [of frequency ?mk ?sel] by (simp only: k)
  have "analyze_v5_combinations draws_list =
      take 10 (sorted_reverse frequency (map ?mk ?sel))"
    unfolding analyze_v5_combinations_def Let_def combination_counter_Counter
      case_prod_unfold
    using assms by simp
  also have "\<dots> = take 10 (map ?mk (sorted_reverse snd ?sel))"
    by (simp only: srt)
  also have "\<dots> = map ?mk (take 10 (sorted_reverse snd ?sel))"
    by (simp only: take_map)
  finally show ?thesis .
qed

text \<open>
  Claim C3, as amended.  For every group of at least three draws: the combinations
  counted are the 2-element and 3-element subsets of the draws, each sorted ascending;
  every emitted entry is such a combination, its frequency is its number of occurrences
  across the group and at least 2, and its percentage is
  \<open>occurrences / totalDrawsInGroup * 100\<close>; at most ten entries are emitted, all
  different, ordered by occurrence count descending with ties in the order in which the
  combinations were first counted; and a combination with at least two occurrences
  that is not emitted is cut by the limit of ten and ranks after every emitted one.
\<close>

theorem analyze_v5_combinations_ranking:
  assumes "3 \<le> length draws_list"
  shows "set (group_combinations draws_list) =
      (\<Union>d\<in>set draws_list.
         {sort c |c. c \<in> set (subseqs d) \<and> (length c = 2 \<or> length c = 3)})
    \<and> (\<forall>e\<in>set (analyze_v5_combinations draws_list).
          numbers e \<in> set (group_combinations draws_list)
          \<and> frequency e = count_list (group_combinations draws_list) (numbers e)
          \<and> 2 \<le> frequency e
          \<and> percentage e = real (frequency e) / real (length draws_list) * 100)
    \<and> length (analyze_v5_combinations draws_list) \<le> 10
    \<and> distinct (map numbers (analyze_v5_combinations draws_list))
    \<and> sorted_wrt (ranks_before (group_combinations draws_list))
        (map numbers (analyze_v5_combinations draws_list))
    \<and> (\<forall>c\<in>set (group_combinations draws_list).
          2 \<le> count_list (group_combinations draws_list) c
          \<and> c \<notin> set (map numbers (analyze_v5_combinations draws_list)) \<longrightarrow>
          length (analyze_v5_combinations draws_list) = 10
          \<and> (\<forall>e\<in>set (analyze_v5_combinations draws_list).
                ranks_before (group_combinations draws_list) (numbers e) c))"
proof -
  let ?xs = "group_combinations draws_list"
  let ?kept = "take 10 (sorted_reverse snd (filter (\<lambda>e. 2 \<le> snd e) (Counter ?xs)))"
  let ?mk = "\<lambda>e :: int list \<times> nat. \<lparr>numbers = fst e, frequency = snd e,
                percentage = (real (snd e) / real (length draws_list)) * 100\<rparr>"
  note t = top_of_counter [where xs = ?xs and n = 10 and P = "\<lambda>e. 2 \<le> snd e"]
  have out: "analyze_v5_combinations draws_list = map ?mk ?kept"
    using assms by (rule analyze_v5_combinations_as_top)
  have nums: "map numbers (map ?mk ?kept) = map fst ?kept"
    by simp
  have a: "\<forall>e\<in>set (map ?mk ?kept).
          numbers e \<in> set ?xs \<and> frequency e = count_list ?xs (numbers e) \<and> 2 \<le> frequency e
          \<and> percentage e = real (frequency e) / real (length draws_list) * 100"
  proof
    fix e assume "e \<in> set (map ?mk ?kept)"
    then have "e \<in> ?mk ` set ?kept"
      by (simp only: set_map)
    then obtain p where e: "e = ?mk p" and p: "p \<in> set ?kept"
      by (rule imageE)
    from bspec [OF t(2) p]
    have "fst p \<in> set ?xs \<and> snd p = count_list ?xs (fst p) \<and> 2 \<le> snd p" .
    then show "numbers e \<in> set ?xs \<and> frequency e = count_list ?xs (numbers e)
        \<and> 2 \<le> frequency e
        \<and> percentage e = real (frequency e) / real (length draws_list) * 100"
      by (simp add: e)
  qed
  have b: "length (map ?mk ?kept) \<le> 10"
    using t(4) by simp
  have d: "distinct (map numbers (map ?mk ?kept))"
    unfolding nums by (rule t(1))
  have o: "sorted_wrt (ranks_before ?xs) (map numbers (map ?mk ?kept))"
    unfolding nums by (rule t(3))
  have c: "length (map ?mk ?kept) = 10 \<and>
      (\<forall>e\<in>set (map ?mk ?kept). ranks_before ?xs (numbers e) c)"
    if "c \<in> set ?xs" "2 \<le> count_list ?xs c" "c \<notin> set (map numbers (map ?mk ?kept))" for c
  proof -
    from that(1) have "c \<in> fst ` set (Counter ?xs)"
      by (simp only: keys_Counter_image)
    then obtain e where e: "e \<in> set (Counter ?xs)" "fst e = c"
      by blast
    from e(1) have "(fst e, snd e) \<in> set (Counter ?xs)"
      by simp
    then have "snd e = count_list ?xs (fst e)"
      by (rule Counter_entry(2))
    then have "snd e = count_list ?xs c"
      by (simp only: e(2))
    with that(2,3) e have "2 \<le> snd e \<and> fst e \<notin> set (map fst ?kept)"
      unfolding nums by simp
    with bspec [OF t(5) e(1)]
    have "length ?kept = 10 \<and> (\<forall>a\<in>set ?kept. ranks_before ?xs (fst a) (fst e))"
      by (rule mp)
    with e(2) show ?thesis by simp
  qed
  have c': "\<forall>c\<in>set ?xs. 2 \<le> count_list ?xs c
      \<and> c \<notin> set (map numbers (map ?mk ?kept)) \<longrightarrow>
      length (map ?mk ?kept) = 10 \<and>
      (\<forall>e\<in>set (map ?mk ?kept). ranks_before ?xs (numbers e) c)"
  proof (intro ballI impI)
    fix c assume m: "c \<in> set ?xs"
      and h: "2 \<le> count_list ?xs c \<and> c \<notin> set (map numbers (map ?mk ?kept))"
    from h have h1: "2 \<le> count_list ?xs c"
      and h2: "c \<notin> set (map numbers (map ?mk ?kept))"
      by (rule conjunct1, rule conjunct2)
    from m h1 h2 show "length (map ?mk ?kept) = 10 \<and>
        (\<forall>e\<in>set (map ?mk ?kept). ranks_before ?xs (numbers e) c)"
      by (rule c)
  qed
  show ?thesis
    unfolding out by (intro conjI set_group_combinations a b d o c')
qed

lemma example_combinations:
  "analyze_v5_combinations example_draws =
     [\<lparr>numbers = [1, 2], frequency = 2, percentage = 200 / 3\<rparr>]"
  by code_simp

text \<open>
  The specification's example: the pair \<open>(1, 2)\<close> is in two of three draws of size
  three; it is emitted with percentage \<open>200/3\<close>, about 66.7.
\<close>

theorem analyze_v5_combinations_ranking_witness:
  "3 \<le> length example_draws
    \<and> analyze_v5_combinations example_draws =
        [\<lparr>numbers = [1, 2], frequency = 2, percentage = 200 / 3\<rparr>]
    \<and> [1, 2] \<in> set (group_combinations example_draws)
    \<and> count_list (group_combinations example_draws) [1, 2] = 2
    \<and> (66.6 :: real) < 200 / 3 \<and> (200 / 3 :: real) < 66.7"
proof -
  have l: "3 \<le> length example_draws"
    by (simp add: example_draws_def)
  from analyze_v5_combinations_ranking [OF l]
  have "\<forall>e\<in>set (analyze_v5_combinations example_draws).
          numbers e \<in> set (group_combinations example_draws)
          \<and> frequency e = count_list (group_combinations example_draws) (numbers e)"
    by blast
  then have "[1, 2] \<in> set (group_combinations example_draws)
      \<and> count_list (group_combinations example_draws) [1, 2] = 2"
    by (simp add: example_combinations)
  with l show ?thesis
    by (simp add: example_combinations)
qed

text \<open>
  Claim C3 as stated fails on ties.  In the tied group the pairs \<open>(3, 4)\<close> and
  \<open>(1, 2)\<close> both occur twice; the analysis emits \<open>(3, 4)\<close> first, because it is counted
  first, although \<open>(1, 2)\<close> is the smaller tuple in lexicographic order.
\<close>

theorem analyze_v5_combinations_counterexample:
  "map numbers (analyze_v5_combinations tied_draws) = [[3, 4], [1, 2]]
    \<and> map frequency (analyze_v5_combinations tied_draws) = [2, 2]
    \<and> ([1, 2 :: int], [3, 4]) \<in> lexord {(a, b). a < b}"
proof -
  have "map numbers (analyze_v5_combinations tied_draws) = [[3, 4], [1, 2]]"
    by code_simp
  moreover have "map frequency (analyze_v5_combinations tied_draws) = [2, 2]"
    by code_simp
  ultimately show ?thesis
    by simp
qed

section \<open>Sum of the largest counts\<close>

lemma sum_mset_le_take_sorted:
  fixes ys :: "nat list"
  assumes "sorted_wrt (\<lambda>a b. b \<le> a) ys" "M \<subseteq># mset ys" "size M \<le> n"
  shows "sum_mset M \<le> sum_list (take n ys)"
  using assms
proof (induction ys arbitrary: M n)
  case Nil
  then show ?case by simp
next
  case (Cons y ys)
  show ?case
  proof (cases n)
    case 0
    with Cons.prems show ?thesis by simp
  next
    case (Suc n')
    have srt: "sorted_wrt (\<lambda>a b. b \<le> a) ys" and top: "\<forall>z\<in>set ys. z \<le> y"
      using Cons.prems(1) by simp_all
    show ?thesis
    proof (cases "y \<in># M")
      case True
      then have M: "M = add_mset y (M - {#y#})"
        by simp
      with Cons.prems(2) have "M - {#y#} \<subseteq># mset ys"
        by (metis mset.simps(2) mset_subset_eq_add_mset_cancel)
      moreover have "size (M - {#y#}) \<le> n'"
        using Cons.prems(3) True Suc by (simp add: size_Diff_singleton)
      ultimately have "sum_mset (M - {#y#}) \<le> sum_list (take n' ys)"
        using srt by (intro Cons.IH)
      moreover have "sum_mset M = y + sum_mset (M - {#y#})"
        by (subst M) simp
      ultimately show ?thesis
        by (simp add: Suc)
    next
      case False
      have sub: "M \<subseteq># mset ys"
      proof (rule mset_subset_eqI)
        fix a
        show "count M a \<le> count (mset ys) a"
          using mset_subset_eq_count [OF Cons.prems(2), of a] False
          by (cases "a = y") (auto simp: not_in_iff)
      qed
      show ?thesis
      proof (cases "M = {#}")
        case True
        then show ?thesis by simp
      next
        case False
        then obtain m where m: "m \<in># M"
          by auto
        then have M: "M = add_mset m (M - {#m#})"
          by simp
        from m sub have "m \<in> set ys"
          by (metis mset_subset_eqD set_mset_mset)
        with top have le: "m \<le> y" by simp
        have "M - {#m#} \<subseteq># mset ys"
          using sub by (meson diff_subset_eq_self subset_mset.order_trans)
        moreover have "size (M - {#m#}) \<le> n'"
          using Cons.prems(3) m Suc by (simp add: size_Diff_singleton)
        ultimately have "sum_mset (M - {#m#}) \<le> sum_list (take n' ys)"
          using srt by (intro Cons.IH)
        moreover have "sum_mset M = m + sum_mset (M - {#m#})"
          by (subst M) simp
        ultimately show ?thesis
          using le by (simp add: Suc)
      qed
    qed
  qed
qed

lemma Counter_counts: "map snd (Counter xs) = map (count_list xs) (map fst (Counter xs))"
proof -
  have "\<forall>e\<in>set (Counter xs). snd e = count_list xs (fst e)"
    using Counter_entry(2) [of _ _ xs] by auto
  then show ?thesis
    by (simp add: comp_def)
qed

lemma sorted_reverse_descending: "sorted_wrt (\<lambda>a b. b \<le> a) (sorted_reverse (\<lambda>c. c) cs)"
proof -
  have "sorted (map (\<lambda>c. - int c) (sort_key (\<lambda>c. - int c) cs))"
    by (rule sorted_sort_key)
  then show ?thesis
    by (simp add: sorted_map sorted_reverse_def)
qed

lemma most_common_counts:
  "map snd (most_common n fc) = take n (sorted_reverse (\<lambda>c. c) (map snd fc))"
proof -
  have "sorted_reverse (\<lambda>c. c) (map snd fc) = map snd (sorted_reverse ((\<lambda>c. c) \<circ> snd) fc)"
    by (rule sorted_reverse_map)
  also have "(\<lambda>c :: nat. c) \<circ> snd = (snd :: 'a \<times> nat \<Rightarrow> nat)"
    by (simp add: fun_eq_iff)
  finally show ?thesis
    by (simp add: most_common_def take_map)
qed

lemma most_common_entries: "set (most_common n fc) \<subseteq> set fc"
  unfolding most_common_def using set_take_subset [of n "sorted_reverse snd fc"]
  by (simp add: set_sorted_reverse)

lemma distinct_keys_most_common: "distinct (map fst (most_common n (Counter xs)))"
proof -
  have "distinct (map fst (sorted_reverse snd (Counter xs)))"
    by (simp add: distinct_map_sorted_reverse distinct_keys_Counter)
  then show ?thesis
    by (simp add: most_common_def take_map [symmetric] del: distinct_map)
qed

lemma most_common_sum_counts:
  "sum_list (map snd (most_common n (Counter xs))) =
     sum_list (map (count_list xs) (map fst (most_common n (Counter xs))))"
proof -
  have "\<forall>e\<in>set (most_common n (Counter xs)). snd e = count_list xs (fst e)"
    using most_common_entries [of n "Counter xs"] Counter_entry(2) [of _ _ xs] by auto
  then have "map snd (most_common n (Counter xs)) =
      map (count_list xs \<circ> fst) (most_common n (Counter xs))"
    by (intro map_cong) simp_all
  then have "sum_list (map snd (most_common n (Counter xs))) =
      sum_list (map (count_list xs \<circ> fst) (most_common n (Counter xs)))"
    by (rule arg_cong)
  then show ?thesis
    by (simp only: map_map)
qed

lemma distinct_subset_mset:
  assumes "distinct ks" "set ks \<subseteq> set ls"
  shows "mset ks \<subseteq># mset ls"
proof (rule mset_subset_eqI)
  fix a
  show "count (mset ks) a \<le> count (mset ls) a"
  proof (cases "a \<in> set ks")
    case True
    with assms(1) have "count (mset ks) a = 1"
      by (simp add: distinct_count_atmost_1)
    moreover from True assms(2) have "0 < count (mset ls) a"
      by (simp add: subset_iff)
    ultimately show ?thesis by simp
  next
    case False
    then have "count (mset ks) a = 0"
      by (simp add: count_eq_zero_iff)
    then show ?thesis by linarith
  qed
qed

text \<open>
  The counts of the \<open>n\<close> most common elements sum to at least the counts of any
  \<open>n\<close> distinct elements.
\<close>

lemma most_common_sum_greatest:
  assumes "distinct ks" "set ks \<subseteq> set xs" "length ks \<le> n"
  shows "sum_list (map (count_list xs) ks) \<le> sum_list (map snd (most_common n (Counter xs)))"
proof -
  let ?cs = "map snd (Counter xs)"
  let ?M = "mset (map (count_list xs) ks)"
  have "mset ks \<subseteq># mset (map fst (Counter xs))"
    using assms(1,2) by (intro distinct_subset_mset) (simp_all add: keys_Counter_image)
  then have "image_mset (count_list xs) (mset ks)
      \<subseteq># image_mset (count_list xs) (mset (map fst (Counter xs)))"
    by (rule image_mset_subseteq_mono)
  then have "?M \<subseteq># mset (map (count_list xs) (map fst (Counter xs)))"
    by (simp only: mset_map)
  then have "?M \<subseteq># mset ?cs"
    by (simp only: Counter_counts [symmetric])
  then have "?M \<subseteq># mset (sorted_reverse (\<lambda>c. c) ?cs)"
    by (simp only: mset_sorted_reverse)
  moreover have "size ?M \<le> n"
    using assms(3) by simp
  ultimately have "sum_mset ?M \<le> sum_list (take n (sorted_reverse (\<lambda>c. c) ?cs))"
    using sorted_reverse_descending by (intro sum_mset_le_take_sorted)
  moreover have "sum_mset ?M = sum_list (map (count_list xs) ks)"
    by (rule sum_mset_sum_list)
  moreover have "sum_list (take n (sorted_reverse (\<lambda>c. c) ?cs)) =
      sum_list (map snd (most_common n (Counter xs)))"
    by (simp only: most_common_counts)
  ultimately show ?thesis
    by linarith
qed

lemma most_common_sum_le_length:
  "sum_list (map snd (most_common n (Counter xs))) \<le> length xs"
proof -
  let ?srt = "map snd (sorted_reverse snd (Counter xs))"
  have "sum_list (take n ?srt) \<le> sum_list (take n ?srt) + sum_list (drop n ?srt)"
    by simp
  also have "\<dots> = sum_list (take n ?srt @ drop n ?srt)"
    by (simp only: sum_list_append)
  also have "\<dots> = sum_list ?srt"
    by simp
  also have "\<dots> = sum_mset (mset ?srt)"
    by (simp only: sum_mset_sum_list)
  also have "mset ?srt = mset (map snd (Counter xs))"
    by (simp add: mset_sorted_reverse)
  also have "sum_mset (mset (map snd (Counter xs))) = length xs"
    by (simp only: sum_mset_sum_list sum_Counter)
  finally show ?thesis
    by (simp add: most_common_def take_map)
qed

lemma sum_count_list_distinct:
  assumes "distinct ks" "set d \<subseteq> set ks"
  shows "sum_list (map (count_list d) ks) = length d"
proof -
  have "sum_list (map (count_list d) ks) = sum (count_list d) (set ks)"
    using assms(1) by (rule sum_list_distinct_conv_sum_set)
  also have "\<dots> = length d"
    using assms(2) by (intro sum_count_set) simp_all
  finally show ?thesis .
qed

lemma count_list_filter:
  "count_list (filter P d) k = (if P k then count_list d k else 0)"
  by (induction d) auto

lemma sum_count_list_hits:
  assumes "distinct ks"
  shows "sum_list (map (count_list d) ks) = length (filter (\<lambda>x. x \<in> set ks) d)"
proof -
  let ?d = "filter (\<lambda>x. x \<in> set ks) d"
  have "map (count_list d) ks = map (count_list ?d) ks"
    by (intro map_cong) (simp_all add: count_list_filter)
  then have "sum_list (map (count_list d) ks) = sum_list (map (count_list ?d) ks)"
    by (rule arg_cong)
  also have "\<dots> = length ?d"
    using assms by (intro sum_count_list_distinct) auto
  finally show ?thesis .
qed

text \<open>
  Inserting a list of elements raises the sum of the \<open>n\<close> largest counts by at least
  the number of inserted elements that are among the \<open>n\<close> most common.
\<close>

lemma most_common_sum_insert:
  "sum_list (map snd (most_common n (Counter (xs @ ys))))
     + length (filter (\<lambda>x. x \<in> set (map fst (most_common n (Counter (xs @ ys))))) d)
    \<le> sum_list (map snd (most_common n (Counter (xs @ d @ ys))))"
proof -
  let ?ks = "map fst (most_common n (Counter (xs @ ys)))"
  have dk: "distinct ?ks"
    by (rule distinct_keys_most_common)
  have "set ?ks \<subseteq> set (map fst (Counter (xs @ ys)))"
    using most_common_entries [of n "Counter (xs @ ys)"] by auto
  then have sub: "set ?ks \<subseteq> set (xs @ d @ ys)"
    by (auto simp: keys_Counter_image)
  have len: "length ?ks \<le> n"
    by (simp add: most_common_def)
  have "count_list (xs @ d @ ys) = (\<lambda>k. count_list (xs @ ys) k + count_list d k)"
    by (simp add: fun_eq_iff)
  then have "sum_list (map (count_list (xs @ d @ ys)) ?ks) =
      sum_list (map (\<lambda>k. count_list (xs @ ys) k + count_list d k) ?ks)"
    by (simp only:)
  also have "\<dots> = sum_list (map (count_list (xs @ ys)) ?ks) + sum_list (map (count_list d) ?ks)"
    by (rule sum_list_addf)
  also have "sum_list (map (count_list d) ?ks) = length (filter (\<lambda>x. x \<in> set ?ks) d)"
    using dk by (rule sum_count_list_hits)
  also have "sum_list (map (count_list (xs @ ys)) ?ks) =
      sum_list (map snd (most_common n (Counter (xs @ ys))))"
    by (rule most_common_sum_counts [symmetric])
  finally have "sum_list (map snd (most_common n (Counter (xs @ ys))))
      + length (filter (\<lambda>x. x \<in> set ?ks) d) =
      sum_list (map (count_list (xs @ d @ ys)) ?ks)"
    by (rule sym)
  also have "\<dots> \<le> sum_list (map snd (most_common n (Counter (xs @ d @ ys))))"
    using dk sub len by (rule most_common_sum_greatest)
  finally show ?thesis .
qed

section \<open>Monotonicity of the exact-time consistency score\<close>

lemma all_numbers_of_insert:
  "all_numbers_of (rows1 @ r # rows2) =
     all_numbers_of rows1 @ draw_numbers_of_row r @ all_numbers_of rows2"
  by (simp add: all_numbers_of_def)

lemma all_numbers_of_append:
  "all_numbers_of (rows1 @ rows2) = all_numbers_of rows1 @ all_numbers_of rows2"
  by (simp add: all_numbers_of_def)

text \<open>The ten numbers behind the score are the first ten hot numbers of the slot.\<close>

lemma top_ten_hot_numbers:
  "take 10 (hot_numbers (exact_time_pattern corrected rows)) = top_numbers rows"
  by (simp add: exact_time_pattern_def Let_def most_common_def MAX_RECOMMENDATIONS_def
      all_numbers_of_def top_numbers_def take_map [symmetric])

lemma consistency_score_pattern:
  "consistency_score (exact_time_pattern corrected rows) =
     calculate_v5_consistency (map draw_numbers_of_row rows) (Counter (all_numbers_of rows))"
  by (simp add: exact_time_pattern_def Let_def all_numbers_of_def)

lemma consistency_score_of_rows:
  assumes "rows \<noteq> []"
  shows "consistency_score (exact_time_pattern corrected rows) =
     min ((if 0 < length (all_numbers_of rows)
           then real (top_appearances rows) / real (length (all_numbers_of rows)) * 100
           else 0)
          + min (real (length rows) / 20) 5) 100"
proof -
  have n: "sum_list (map length (map draw_numbers_of_row rows)) = length (all_numbers_of rows)"
    by (simp add: all_numbers_of_def length_concat)
  have "consistency_score (exact_time_pattern corrected rows) =
      calculate_v5_consistency (map draw_numbers_of_row rows) (Counter (all_numbers_of rows))"
    by (rule consistency_score_pattern)
  also have "\<dots> =
     min ((if 0 < length (all_numbers_of rows)
           then real (top_appearances rows) / real (length (all_numbers_of rows)) * 100
           else 0)
          + min (real (length rows) / 20) 5) 100"
    unfolding calculate_v5_consistency_def Let_def n top_appearances_def using assms by simp
  finally show ?thesis .
qed

lemma top_appearances_le: "top_appearances rows \<le> length (all_numbers_of rows)"
  unfolding top_appearances_def by (rule most_common_sum_le_length)

text \<open>
  A draw made only of numbers among the ten most frequent has the full share of them,
  which is at least the share of the group.
\<close>

lemma top_hits_all:
  assumes "set (draw_numbers_of_row r) \<subseteq> set (top_numbers rows)"
  shows "top_appearances rows * length (draw_numbers_of_row r)
    \<le> top_hits rows r * length (all_numbers_of rows)"
proof -
  have "filter (\<lambda>x. x \<in> set (top_numbers rows)) (draw_numbers_of_row r)
      = draw_numbers_of_row r"
    using assms by (intro filter_True) auto
  then have "top_hits rows r = length (draw_numbers_of_row r)"
    by (simp add: top_hits_def)
  then show ?thesis
    using top_appearances_le [of rows] by (simp add: mult.commute)
qed

lemma ratio_mono:
  fixes s t h m n :: nat
  assumes "s + h \<le> t" "s * n \<le> h * m" "0 < m"
  shows "real s / real m \<le> real t / real (m + n)"
proof -
  have "s * (m + n) \<le> (s + h) * m"
    using assms(2) by (simp add: algebra_simps)
  then have "real (s * (m + n)) \<le> real ((s + h) * m)"
    by (rule of_nat_mono)
  then have "real s * real (m + n) \<le> real (s + h) * real m"
    by simp
  then have "real s / real m \<le> real (s + h) / real (m + n)"
    using assms(3) by (simp add: field_simps)
  also have "\<dots> \<le> real t / real (m + n)"
    using assms(1) by (intro divide_right_mono) simp_all
  finally show ?thesis .
qed

lemma score_mono:
  fixes s t h m n k :: nat
  assumes "s + h \<le> t" "s * n \<le> h * m"
  shows "min ((if 0 < m then real s / real m * 100 else 0) + min (real k / 20) 5) 100
    \<le> min ((if 0 < m + n then real t / real (m + n) * 100 else 0)
           + min (real (Suc k) / 20) 5) (100 :: real)"
proof -
  have base: "(if 0 < m then real s / real m * 100 else 0)
      \<le> (if 0 < m + n then real t / real (m + n) * 100 else (0 :: real))"
  proof (cases "0 < m")
    case True
    with assms have "real s / real m \<le> real t / real (m + n)"
      by (intro ratio_mono)
    then have "real s / real m * 100 \<le> real t / real (m + n) * 100"
      by (rule mult_right_mono) simp
    with True show ?thesis
      by (simp only: if_True trans_less_add1)
  next
    case False
    have "0 \<le> real t / real (m + n) * 100"
      by simp
    with False show ?thesis
      by (simp only: if_False split: if_split) simp
  qed
  have bonus: "min (real k / 20) 5 \<le> min (real (Suc k) / 20) (5 :: real)"
    by simp
  from base bonus
  have "(if 0 < m then real s / real m * 100 else 0) + min (real k / 20) 5
      \<le> (if 0 < m + n then real t / real (m + n) * 100 else 0) + min (real (Suc k) / 20) 5"
    by (rule add_mono)
  then show ?thesis
    by (rule min.mono) simp
qed

text \<open>
  Claim C6, as amended.  For every group of draws and every additional draw in which
  the share of numbers that are among the group's ten most frequent numbers (its first
  ten hot numbers, which the score is computed from) is at least the share that the
  counts of these ten numbers have among all numbers drawn in the group, the exact-time
  consistency score of the group extended with that draw, at any position, is greater
  than or equal to the score of the original group.  The condition is written without
  division: hot count of the group times size of the draw is at most hot numbers in the
  draw times size of the group.  A draw made only of such numbers always meets it.
\<close>

theorem consistency_monotone_share:
  assumes "top_appearances (rows1 @ rows2) * length (draw_numbers_of_row r)
    \<le> top_hits (rows1 @ rows2) r * length (all_numbers_of (rows1 @ rows2))"
  shows "top_numbers (rows1 @ rows2)
      = take 10 (hot_numbers (exact_time_pattern corrected (rows1 @ rows2)))
    \<and> consistency_score (exact_time_pattern corrected (rows1 @ rows2))
      \<le> consistency_score (exact_time_pattern corrected (rows1 @ r # rows2))"
proof -
  have mono: "consistency_score (exact_time_pattern corrected (rows1 @ rows2))
      \<le> consistency_score (exact_time_pattern corrected (rows1 @ r # rows2))"
  proof (cases "rows1 @ rows2 = []")
    case True
    then have "consistency_score (exact_time_pattern corrected (rows1 @ rows2)) = 0"
      by (simp add: exact_time_pattern_def Let_def calculate_v5_consistency_def)
    moreover have "0 \<le> consistency_score (exact_time_pattern corrected (rows1 @ r # rows2))"
      by (simp add: exact_time_pattern_def Let_def calculate_v5_consistency_bounds)
    ultimately show ?thesis by simp
  next
    case False
    define xs where "xs = all_numbers_of rows1"
    define ys where "ys = all_numbers_of rows2"
    define d where "d = draw_numbers_of_row r"
    define s where "s = top_appearances (rows1 @ rows2)"
    define t where "t = top_appearances (rows1 @ r # rows2)"
    define h where "h = top_hits (rows1 @ rows2) r"
    define m where "m = length (all_numbers_of (rows1 @ rows2))"
    define k where "k = length (rows1 @ rows2)"
    have s_eq: "s = sum_list (map snd (most_common 10 (Counter (xs @ ys))))"
      by (simp only: s_def top_appearances_def all_numbers_of_append xs_def ys_def)
    have t_eq: "t = sum_list (map snd (most_common 10 (Counter (xs @ d @ ys))))"
      by (simp only: t_def top_appearances_def all_numbers_of_insert xs_def ys_def d_def)
    have h_eq: "h = length (filter
        (\<lambda>x. x \<in> set (map fst (most_common 10 (Counter (xs @ ys))))) d)"
      by (simp only: h_def top_hits_def top_numbers_def all_numbers_of_append xs_def ys_def
          d_def)
    have st: "s + h \<le> t"
      unfolding s_eq t_eq h_eq by (rule most_common_sum_insert)
    have share: "s * length d \<le> h * m"
      using assms by (simp only: s_def h_def m_def d_def)
    have len: "length (all_numbers_of (rows1 @ r # rows2)) = m + length d"
      by (simp add: m_def d_def all_numbers_of_def)
    have k': "length (rows1 @ r # rows2) = Suc k"
      by (simp add: k_def)
    have ne: "rows1 @ r # rows2 \<noteq> []"
      by simp
    have old: "consistency_score (exact_time_pattern corrected (rows1 @ rows2)) =
        min ((if 0 < m then real s / real m * 100 else 0) + min (real k / 20) 5) 100"
      unfolding consistency_score_of_rows [OF False]
      by (simp only: s_def m_def k_def)
    have new: "consistency_score (exact_time_pattern corrected (rows1 @ r # rows2)) =
        min ((if 0 < m + length d then real t / real (m + length d) * 100 else 0)
             + min (real (Suc k) / 20) 5) 100"
      unfolding consistency_score_of_rows [OF ne] k' len
      by (simp only: t_def)
    show ?thesis
      unfolding old new using st share by (rule score_mono)
  qed
  have "top_numbers (rows1 @ rows2)
      = take 10 (hot_numbers (exact_time_pattern corrected (rows1 @ rows2)))"
    by (rule top_ten_hot_numbers [symmetric])
  then show ?thesis
    using mono by (rule conjI)
qed

lemma full_rows_score: "consistency_score (exact_time_pattern ''07:58'' full_rows) = 201 / 4"
  unfolding consistency_score_pattern by code_simp

lemma diluted_score:
  "consistency_score (exact_time_pattern ''07:58'' (full_rows @ [diluting_row])) = 214 / 5"
  unfolding consistency_score_pattern by code_simp

lemma balanced_score:
  "consistency_score (exact_time_pattern ''07:58'' (full_rows @ [balanced_row])) = 503 / 10"
  unfolding consistency_score_pattern by code_simp

text \<open>
  The group of five full draws has hot count 50 among 100 numbers.  The balanced draw of
  twenty numbers holds ten of the ten most frequent numbers, the same share; adding it
  raises the score from \<open>201/4\<close> to \<open>503/10\<close>.
\<close>

theorem consistency_monotone_share_witness:
  "top_appearances full_rows = 50
    \<and> length (all_numbers_of full_rows) = 100
    \<and> length (draw_numbers_of_row balanced_row) = 20
    \<and> top_hits full_rows balanced_row = 10
    \<and> consistency_score (exact_time_pattern ''07:58'' full_rows) = 201 / 4
    \<and> consistency_score (exact_time_pattern ''07:58'' (full_rows @ [balanced_row])) = 503 / 10
    \<and> consistency_score (exact_time_pattern ''07:58'' full_rows)
      \<le> consistency_score (exact_time_pattern ''07:58'' (full_rows @ [balanced_row]))"
proof -
  have a: "top_appearances full_rows = 50"
    by code_simp
  have n: "length (all_numbers_of full_rows) = 100"
    by code_simp
  have d: "length (draw_numbers_of_row balanced_row) = 20"
    by code_simp
  have h: "top_hits full_rows balanced_row = 10"
    by code_simp
  have "top_appearances (full_rows @ []) * length (draw_numbers_of_row balanced_row)
      \<le> top_hits (full_rows @ []) balanced_row * length (all_numbers_of (full_rows @ []))"
    by (simp add: a n d h)
  from consistency_monotone_share [OF this, of "''07:58''"]
  have "consistency_score (exact_time_pattern ''07:58'' full_rows)
      \<le> consistency_score (exact_time_pattern ''07:58'' (full_rows @ [balanced_row]))"
    by simp
  with a n d h show ?thesis
    by (simp only: full_rows_score balanced_score simp_thms)
qed

text \<open>
  Claim C6 as stated fails.  The number 1 is among the hot numbers of the group of five
  full draws, whose score is \<open>201/4\<close>, that is 50.25; adding the draw that repeats 1
  together with nineteen new numbers lowers the score to \<open>214/5\<close>, that is 42.8.
\<close>

theorem consistency_monotone_counterexample:
  "1 \<in> set (take 10 (hot_numbers (exact_time_pattern ''07:58'' full_rows)))
    \<and> 1 \<in> set (draw_numbers_of_row diluting_row)
    \<and> consistency_score (exact_time_pattern ''07:58'' full_rows) = 201 / 4
    \<and> consistency_score (exact_time_pattern ''07:58'' (full_rows @ [diluting_row])) = 214 / 5
    \<and> consistency_score (exact_time_pattern ''07:58'' (full_rows @ [diluting_row]))
      < consistency_score (exact_time_pattern ''07:58'' full_rows)"
proof -
  have "1 \<in> set (take 10 (hot_numbers (exact_time_pattern ''07:58'' full_rows)))"
    unfolding top_ten_hot_numbers by code_simp
  moreover have "1 \<in> set (draw_numbers_of_row diluting_row)"
    by code_simp
  ultimately show ?thesis
    by (simp add: full_rows_score diluted_score)
qed

end
